theory Spec2Isabelle
  imports Main "HOL-Library.Word" "HOL-Library.Sublist"
begin

section \<open>The goroutine-id package: data model\<close>

text \<open>
  The package \<^verbatim>\<open>goid\<close> (file \<^verbatim>\<open>goid.go\<close>) reads the id of the running goroutine
  either from the text of a stack trace (\<^verbatim>\<open>slowGid\<close>) or from the runtime's control
  block "g" at a byte offset that is discovered once, when the package is initialised
  (\<^verbatim>\<open>getGidOffset\<close>).

  \<^item> \<^verbatim>\<open>type GoID int64\<close> is a 64-bit word; \<^verbatim>\<open>*g\<close> and \<^verbatim>\<open>uintptr\<close> are 64-bit
    addresses, \<^verbatim>\<open>nil\<close> is address 0.
  \<^item> Go's \<^verbatim>\<open>int\<close> (64 bits on the platforms of \<^verbatim>\<open>getg\<close>) is an \<open>int\<close> with the
    wrap-around of \<^verbatim>\<open>offset += gidSize\<close> written out (\<open>wrap64\<close>).
  \<^item> What the runtime gives a goroutine is a record: the text \<^verbatim>\<open>runtime.Stack\<close> writes
    for it, the address \<^verbatim>\<open>getg()\<close> returns, the memory as an 8-byte read sees it
    (\<open>None\<close> where the read faults), and the goroutine's panic-on-fault flag
    (\<^verbatim>\<open>debug.SetPanicOnFault\<close>, which is a per-goroutine setting).
  \<^item> The package's variables \<^verbatim>\<open>goroutinePrefix\<close> and \<^verbatim>\<open>gidOffset\<close> are the record
    \<open>globals\<close>.
  \<^item> A computation ends with a value, with a Go panic that a deferred \<^verbatim>\<open>recover\<close> can
    still catch, or with a fatal error of the runtime that ends the process.
  \<^item> The goroutines that \<^verbatim>\<open>checkGidOffset\<close> and \<^verbatim>\<open>getGidOffset\<close> start share no
    variable and only send one value each on a channel, so each is a computation of its
    own on the goroutine record the runtime gives it; the memory a goroutine sees stays
    the same while the offset is resolved.
\<close>

type_synonym GoID = "64 word"
type_synonym addr = "64 word"

record goroutine =
  stack_trace :: string
  g_ptr :: addr
  memory :: "addr \<Rightarrow> GoID option"
  panicOnFault :: bool

record globals =
  goroutinePrefix :: string
  gidOffset :: int

datatype 'a exec = Done 'a | Panicking | Fatal

definition gidSize :: int where
  "gidSize = 8"

definition gSize :: int where
  "gSize = 256"

definition checkCount :: nat where
  "checkCount = 10"

definition voterCount :: nat where
  "voterCount = 10"

definition wrap64 :: "int \<Rightarrow> int" where
  "wrap64 x = (x + 2 ^ 63) mod 2 ^ 64 - 2 ^ 63"

section \<open>The standard library functions slowGid calls\<close>

text \<open>
  \<^verbatim>\<open>strings.HasPrefix\<close>, \<^verbatim>\<open>strings.TrimPrefix\<close> (which returns its argument unchanged
  when the prefix is not there), \<^verbatim>\<open>strings.IndexByte\<close> (\<open>-1\<close> when the byte does not
  occur), a slice expression \<^verbatim>\<open>s[:hi]\<close> (a run-time panic when \<open>hi\<close> is out of range) and
  \<^verbatim>\<open>strconv.ParseInt(s, 10, 64)\<close> with its two errors.
\<close>

definition HasPrefix :: "string \<Rightarrow> string \<Rightarrow> bool" where
  "HasPrefix s pre = (length pre \<le> length s \<and> take (length pre) s = pre)"

definition TrimPrefix :: "string \<Rightarrow> string \<Rightarrow> string" where
  "TrimPrefix s pre = (if HasPrefix s pre then drop (length pre) s else s)"

fun IndexByte :: "string \<Rightarrow> char \<Rightarrow> int" where
  "IndexByte [] c = -1"
| "IndexByte (x # xs) c =
     (if x = c then 0 else (let i = IndexByte xs c in if i < 0 then -1 else i + 1))"

definition slice_to :: "string \<Rightarrow> int \<Rightarrow> string exec" where
  "slice_to s hi = (if 0 \<le> hi \<and> hi \<le> int (length s) then Done (take (nat hi) s) else Panicking)"

datatype NumError = ErrSyntax | ErrRange

definition is_digit :: "char \<Rightarrow> bool" where
  "is_digit c = (48 \<le> (of_char c :: int) \<and> (of_char c :: int) \<le> 57)"

definition digit_val :: "char \<Rightarrow> int" where
  "digit_val c = of_char c - 48"

definition maxUint64 :: int where
  "maxUint64 = 2 ^ 64 - 1"

text \<open>
  The loop of \<^verbatim>\<open>strconv.ParseUint\<close> for base 10 and 64 bits: a byte that is not a decimal
  digit is a syntax error; \<open>n \<ge> cutoff\<close> (the product would overflow) and a sum above
  the largest value are range errors. The \<^verbatim>\<open>uint64\<close> accumulator is an \<open>int\<close> that these
  two checks keep below \<open>2 ^ 64\<close>.
\<close>

fun ParseUint_loop :: "int \<Rightarrow> string \<Rightarrow> NumError + int" where
  "ParseUint_loop n [] = Inr n"
| "ParseUint_loop n (c # cs) =
     (if \<not> is_digit c then Inl ErrSyntax
      else if n \<ge> maxUint64 div 10 + 1 then Inl ErrRange
      else if n * 10 + digit_val c > maxUint64 then Inl ErrRange
      else ParseUint_loop (n * 10 + digit_val c) cs)"

definition ParseUint :: "string \<Rightarrow> NumError + int" where
  "ParseUint s = (if s = [] then Inl ErrSyntax else ParseUint_loop 0 s)"

definition ParseInt :: "string \<Rightarrow> NumError + int" where
  "ParseInt s0 =
     (if s0 = [] then Inl ErrSyntax
      else
        let neg = (hd s0 = CHR ''-'');
            s = (if hd s0 = CHR ''+'' \<or> hd s0 = CHR ''-'' then tl s0 else s0)
        in case ParseUint s of
             Inl ErrSyntax \<Rightarrow> Inl ErrSyntax
           | Inl ErrRange \<Rightarrow> Inl ErrRange
           | Inr un \<Rightarrow>
               if \<not> neg \<and> un \<ge> 2 ^ 63 then Inl ErrRange
               else if neg \<and> un > 2 ^ 63 then Inl ErrRange
               else Inr (if neg then - un else un))"

section \<open>slowGid\<close>

text \<open>
  \<^verbatim>\<open>runtime.Stack(buf, false)\<close> writes at most \<open>len(buf)\<close> bytes of the goroutine's
  trace and returns how many it wrote, so \<^verbatim>\<open>buf[:n]\<close> is the first 32 bytes of the trace.
\<close>

definition Stack :: "goroutine \<Rightarrow> nat \<Rightarrow> string" where
  "Stack gr cap = take cap (stack_trace gr)"

definition parseGid :: "string \<Rightarrow> string \<Rightarrow> GoID exec" where
  "parseGid pre blob =
     (let str = TrimPrefix blob pre;
          lastOffset = IndexByte str CHR '' ''
      in if lastOffset > 0 then
           (case slice_to str lastOffset of
              Done tok \<Rightarrow>
                (case ParseInt tok of
                   Inr ident \<Rightarrow> Done (word_of_int ident)
                 | Inl err \<Rightarrow> Done 0)
            | Panicking \<Rightarrow> Panicking
            | Fatal \<Rightarrow> Fatal)
         else Done 0)"

definition slowGid :: "globals \<Rightarrow> goroutine \<Rightarrow> GoID exec" where
  "slowGid gl gr = parseGid (goroutinePrefix gl) (Stack gr 32)"

section \<open>Reading the control block\<close>

text \<open>
  \<^verbatim>\<open>gidFromG\<close> reads the 8 bytes at \<open>g + offset\<close> (the sum of two \<^verbatim>\<open>uintptr\<close> wraps).
  Where the read faults, the runtime raises a panic if the goroutine has asked for it
  with \<^verbatim>\<open>debug.SetPanicOnFault(true)\<close> or if the address lies in the first page (the
  nil-pointer dereference); a fault at any other address is, by default, a fatal error
  that no \<^verbatim>\<open>recover\<close> sees. This is the behaviour package \<^verbatim>\<open>runtime/debug\<close> documents
  for \<^verbatim>\<open>SetPanicOnFault\<close>: a fault at an unexpected (non-nil) address crashes the
  program unless the current goroutine has set the flag.
\<close>

definition nilPage :: addr where
  "nilPage = 4096"

definition getg :: "goroutine \<Rightarrow> addr" where
  "getg gr = g_ptr gr"

definition gidFromG :: "goroutine \<Rightarrow> addr \<Rightarrow> int \<Rightarrow> GoID exec" where
  "gidFromG gr g offset =
     (let a = g + word_of_int offset
      in case memory gr a of
           Some v \<Rightarrow> Done v
         | None \<Rightarrow> if panicOnFault gr \<or> a < nilPage then Panicking else Fatal)"

definition FastGetGoIDAvailable :: "globals \<Rightarrow> bool" where
  "FastGetGoIDAvailable gl = (gidOffset gl \<ge> 0)"

definition fastGid :: "globals \<Rightarrow> goroutine \<Rightarrow> GoID exec" where
  "fastGid gl gr = gidFromG gr (getg gr) (gidOffset gl)"

definition GetGoID :: "globals \<Rightarrow> goroutine \<Rightarrow> GoID exec" where
  "GetGoID gl gr = (if FastGetGoIDAvailable gl then fastGid gl gr else slowGid gl gr)"

section \<open>findGidOffset\<close>

text \<open>
  The \<^verbatim>\<open>for\<close> loop of \<^verbatim>\<open>findGidOffset\<close>. It returns how the loop ended together with
  the addresses it read, in order (the reads are the effect of the loop that the
  properties below speak of). \<open>None\<close> is a loop that never ends.
\<close>

partial_function (option) scan ::
  "goroutine \<Rightarrow> addr \<Rightarrow> GoID \<Rightarrow> int \<Rightarrow> int \<Rightarrow> (int exec \<times> addr list) option" where
  "scan gr g currGid offset maxOffset =
     (if offset < maxOffset then
        (case gidFromG gr g offset of
           Done v \<Rightarrow>
             if v = currGid then Some (Done offset, [g + word_of_int offset])
             else Option.bind (scan gr g currGid (wrap64 (offset + gidSize)) maxOffset)
                    (\<lambda>(r, reads). Some (r, (g + word_of_int offset) # reads))
         | Panicking \<Rightarrow> Some (Panicking, [g + word_of_int offset])
         | Fatal \<Rightarrow> Some (Fatal, [g + word_of_int offset]))
      else Some (Done (- 1), []))"

text \<open>
  The two deferred functions run in reverse order when the body returns or panics: first
  the panic-on-fault flag is set back, then \<^verbatim>\<open>recover\<close> turns a panic into the result
  \<open>-1\<close>. A fatal error runs no deferred function.
\<close>

definition findGidOffset ::
  "globals \<Rightarrow> goroutine \<Rightarrow> int \<Rightarrow> int \<Rightarrow> (int exec \<times> goroutine \<times> addr list) option" where
  "findGidOffset gl gr startOffset maxOffset =
     (case slowGid gl gr of
        Done currGid \<Rightarrow>
          (let g = getg gr;
               oldPanicOnFault = panicOnFault gr;
               gr1 = gr\<lparr>panicOnFault := True\<rparr>
           in case (if currGid \<noteq> 0 \<and> g \<noteq> 0 then scan gr1 g currGid startOffset maxOffset
                    else Some (Done (- 1), [])) of
                None \<Rightarrow> None
              | Some (Fatal, reads) \<Rightarrow> Some (Fatal, gr1, reads)
              | Some (Panicking, reads) \<Rightarrow>
                  Some (Done (- 1), gr1\<lparr>panicOnFault := oldPanicOnFault\<rparr>, reads)
              | Some (Done r, reads) \<Rightarrow>
                  Some (Done r, gr1\<lparr>panicOnFault := oldPanicOnFault\<rparr>, reads))
      | Panicking \<Rightarrow> Some (Panicking, gr, [])
      | Fatal \<Rightarrow> Some (Fatal, gr, []))"

section \<open>checkGidOffset\<close>

text \<open>
  A \<^verbatim>\<open>go\<close> statement starts a goroutine whose panic-on-fault flag is off. The body of a
  probe sends one boolean on the channel; its deferred \<^verbatim>\<open>recover\<close> sends \<open>false\<close> for a
  panic of the read. A panic before the \<^verbatim>\<open>defer\<close> statement, like a fatal error, ends
  the process.
\<close>

definition spawn :: "goroutine \<Rightarrow> goroutine" where
  "spawn gr = gr\<lparr>panicOnFault := False\<rparr>"

definition probe :: "globals \<Rightarrow> goroutine \<Rightarrow> int \<Rightarrow> bool exec" where
  "probe gl gr offset =
     (case slowGid gl gr of
        Done gid \<Rightarrow>
          (let g = getg gr
           in case (if gid \<noteq> 0 \<and> g \<noteq> 0 then
                      (case gidFromG gr g offset of
                         Done v \<Rightarrow> Done (v = gid)
                       | Panicking \<Rightarrow> Panicking
                       | Fatal \<Rightarrow> Fatal)
                    else Done False) of
                Done match \<Rightarrow> Done match
              | Panicking \<Rightarrow> Done False
              | Fatal \<Rightarrow> Fatal)
      | Panicking \<Rightarrow> Fatal
      | Fatal \<Rightarrow> Fatal)"

text \<open>
  The receiving loop: \<open>result\<close> starts \<open>true\<close> and becomes \<open>false\<close> at the first
  \<open>false\<close> received. The values are taken in the order the probes were started; the
  result depends only on the set of values received (lemma \<open>collect_set\<close>).
\<close>

fun collect :: "bool exec list \<Rightarrow> bool \<Rightarrow> bool exec" where
  "collect [] result = Done result"
| "collect (Done b # rs) result = collect rs (if \<not> b then False else result)"
| "collect (Panicking # rs) result = Fatal"
| "collect (Fatal # rs) result = Fatal"

definition checkGidOffset :: "globals \<Rightarrow> (nat \<Rightarrow> goroutine) \<Rightarrow> int \<Rightarrow> bool exec" where
  "checkGidOffset gl probes offset =
     collect (map (\<lambda>i. probe gl (spawn (probes i)) offset) [0..<checkCount]) True"

section \<open>getGidOffset\<close>

text \<open>
  The runtime, as far as \<^verbatim>\<open>getGidOffset\<close> sees it: the goroutine the \<open>i\<close>-th voter runs
  as, and the goroutine that is the \<open>j\<close>-th probe of the \<open>k\<close>-th call of
  \<^verbatim>\<open>checkGidOffset\<close> by the \<open>i\<close>-th voter.
\<close>

record runtime_env =
  voter_goroutine :: "nat \<Rightarrow> goroutine"
  probe_goroutine :: "nat \<Rightarrow> nat \<Rightarrow> nat \<Rightarrow> goroutine"

text \<open>The loop of a voter; \<open>k\<close> counts its calls of \<^verbatim>\<open>checkGidOffset\<close>.\<close>

partial_function (option) voter_loop ::
  "globals \<Rightarrow> (nat \<Rightarrow> nat \<Rightarrow> goroutine) \<Rightarrow> goroutine \<Rightarrow> nat \<Rightarrow> int \<Rightarrow> int list
     \<Rightarrow> int list exec option" where
  "voter_loop gl probes gr k offset localCandidateOffsets =
     (if offset < gSize then
        (case findGidOffset gl gr offset gSize of
           None \<Rightarrow> None
         | Some (Done found, gr', reads) \<Rightarrow>
             if found = - 1 then Some (Done localCandidateOffsets)
             else (case checkGidOffset gl (probes k) found of
                     Done ok \<Rightarrow>
                       voter_loop gl probes gr' (Suc k) (wrap64 (found + gidSize))
                         (if ok then localCandidateOffsets @ [found]
                          else localCandidateOffsets)
                   | Panicking \<Rightarrow> Some Panicking
                   | Fatal \<Rightarrow> Some Fatal)
         | Some (Panicking, gr', reads) \<Rightarrow> Some Panicking
         | Some (Fatal, gr', reads) \<Rightarrow> Some Fatal)
      else Some (Done localCandidateOffsets))"

definition voter :: "globals \<Rightarrow> runtime_env \<Rightarrow> nat \<Rightarrow> int list exec option" where
  "voter gl env i =
     voter_loop gl (probe_goroutine env i) (spawn (voter_goroutine env i)) 0 0 []"

text \<open>
  The lists the voters send. A voter that panics or dies ends the process; otherwise a
  voter that never ends leaves the receiver waiting for ever.
\<close>

fun gather :: "int list exec option list \<Rightarrow> int list list exec option" where
  "gather [] = Some (Done [])"
| "gather (None # rs) =
     (case gather rs of
        None \<Rightarrow> None
      | Some (Done ls) \<Rightarrow> None
      | Some Panicking \<Rightarrow> Some Fatal
      | Some Fatal \<Rightarrow> Some Fatal)"
| "gather (Some (Done l) # rs) =
     (case gather rs of
        None \<Rightarrow> None
      | Some (Done ls) \<Rightarrow> Some (Done (l # ls))
      | Some Panicking \<Rightarrow> Some Fatal
      | Some Fatal \<Rightarrow> Some Fatal)"
| "gather (Some Panicking # rs) = Some Fatal"
| "gather (Some Fatal # rs) = Some Fatal"

text \<open>\<^verbatim>\<open>globalCandidateOffsets[offset]++\<close> on a \<^verbatim>\<open>map[int]int\<close>: a missing key counts as 0.\<close>

definition vote :: "(int \<rightharpoonup> int) \<Rightarrow> int \<Rightarrow> (int \<rightharpoonup> int)" where
  "vote m offset = m(offset \<mapsto> (case m offset of None \<Rightarrow> 0 | Some c \<Rightarrow> c) + 1)"

definition count_votes :: "int list list \<Rightarrow> (int \<rightharpoonup> int)" where
  "count_votes ls = fold (\<lambda>l m. fold (\<lambda>offset m'. vote m' offset) l m) ls Map.empty"

text \<open>
  \<^verbatim>\<open>for offset, votes := range globalCandidateOffsets\<close> visits every key of the map once,
  in an order Go leaves unspecified. The order is the list \<open>order\<close>.
\<close>

definition range_order :: "(int \<rightharpoonup> int) \<Rightarrow> int list \<Rightarrow> bool" where
  "range_order m order = (distinct order \<and> set order = dom m)"

fun pick :: "(int \<rightharpoonup> int) \<Rightarrow> int list \<Rightarrow> int" where
  "pick m [] = - 1"
| "pick m (offset # rest) =
     (if m offset = Some (int voterCount) then offset else pick m rest)"

definition tally :: "globals \<Rightarrow> runtime_env \<Rightarrow> (int \<rightharpoonup> int) exec option" where
  "tally gl env =
     (case gather (map (voter gl env) [0..<voterCount]) of
        None \<Rightarrow> None
      | Some (Done ls) \<Rightarrow> Some (Done (count_votes ls))
      | Some Panicking \<Rightarrow> Some Fatal
      | Some Fatal \<Rightarrow> Some Fatal)"

definition getGidOffset :: "globals \<Rightarrow> runtime_env \<Rightarrow> int list \<Rightarrow> int exec option" where
  "getGidOffset gl env order =
     (case tally gl env of
        None \<Rightarrow> None
      | Some (Done globalCandidateOffsets) \<Rightarrow> Some (Done (pick globalCandidateOffsets order))
      | Some Panicking \<Rightarrow> Some Fatal
      | Some Fatal \<Rightarrow> Some Fatal)"

text \<open>
  Package initialisation: \<^verbatim>\<open>goroutinePrefix\<close> gets its literal, then \<^verbatim>\<open>gidOffset\<close>
  (0 until then) gets the result of \<^verbatim>\<open>getGidOffset()\<close>.
\<close>

definition initial_globals :: globals where
  "initial_globals = \<lparr>goroutinePrefix = ''goroutine '', gidOffset = 0\<rparr>"

definition package_init :: "runtime_env \<Rightarrow> int list \<Rightarrow> globals exec option" where
  "package_init env order =
     (case getGidOffset initial_globals env order of
        None \<Rightarrow> None
      | Some (Done off) \<Rightarrow> Some (Done (initial_globals\<lparr>gidOffset := off\<rparr>))
      | Some Panicking \<Rightarrow> Some Fatal
      | Some Fatal \<Rightarrow> Some Fatal)"

section \<open>Notions the properties are stated with\<close>



text \<open>
  The offsets \<open>startOffset, startOffset + 8, ...\<close> strictly below \<open>maxOffset\<close>, and the
  8-byte value a goroutine's memory holds at an offset from \<open>g\<close>.
\<close>

definition progression :: "int \<Rightarrow> int \<Rightarrow> int set" where
  "progression startOffset maxOffset =
     {offset. startOffset \<le> offset \<and> offset < maxOffset \<and> (offset - startOffset) mod gidSize = 0}"

definition stored :: "goroutine \<Rightarrow> int \<Rightarrow> GoID option" where
  "stored gr offset = memory gr (getg gr + word_of_int offset)"

text \<open>What the loop of \<^verbatim>\<open>findGidOffset\<close> establishes when it ends.\<close>

definition scan_post ::
  "goroutine \<Rightarrow> addr \<Rightarrow> GoID \<Rightarrow> int \<Rightarrow> int \<Rightarrow> int exec \<Rightarrow> addr list \<Rightarrow> bool" where
  "scan_post gr g c offset maxOffset r reads =
     (set reads \<subseteq> (\<lambda>x. g + word_of_int x) ` progression offset maxOffset \<and>
      (panicOnFault gr \<longrightarrow> r \<noteq> Fatal) \<and>
      ((\<exists>a\<in>set reads. memory gr a = None) = (r = Panicking \<or> r = Fatal)) \<and>
      (\<forall>x. r = Done x \<longrightarrow>
         (x \<in> progression offset maxOffset \<and> memory gr (g + word_of_int x) = Some c \<and>
          (\<forall>y\<in>progression offset maxOffset. memory gr (g + word_of_int y) = Some c \<longrightarrow> x \<le> y))
         \<or> (x = - 1 \<and> (\<forall>y\<in>progression offset maxOffset. memory gr (g + word_of_int y) \<noteq> Some c))))"


text \<open>
  A goroutine for the examples: its id is 7, its control block at address \<open>0x10000\<close> is
  three words long and holds the id at offset 16; every other address faults.
\<close>

definition sample_goroutine :: goroutine where
  "sample_goroutine =
     \<lparr>stack_trace = ''goroutine 7 [running]:'',
      g_ptr = 0x10000,
      memory = (\<lambda>a. if a = 0x10010 then Some 7
                     else if 0x10000 \<le> a \<and> a < 0x10018 then Some 0 else None),
      panicOnFault = False\<rparr>"

text \<open>A runtime in which every voter and every probe is a goroutine like the sample.\<close>

definition sample_env :: runtime_env where
  "sample_env = \<lparr>voter_goroutine = (\<lambda>i. sample_goroutine),
                 probe_goroutine = (\<lambda>i k j. sample_goroutine)\<rparr>"

text \<open>
  What the loop of a voter that starts at \<open>offset\<close> adds to its list: distinct offsets of
  the progression, each found by \<^verbatim>\<open>findGidOffset\<close> and approved by \<^verbatim>\<open>checkGidOffset\<close>.
\<close>

definition voter_post ::
  "globals \<Rightarrow> (nat \<Rightarrow> nat \<Rightarrow> goroutine) \<Rightarrow> goroutine \<Rightarrow> int \<Rightarrow> int list \<Rightarrow> bool" where
  "voter_post gl probes gr offset new =
     (distinct new \<and>
      (\<forall>x\<in>set new. x \<in> progression offset gSize \<and>
         (\<exists>c. slowGid gl gr = Done c \<and> c \<noteq> 0 \<and> getg gr \<noteq> 0 \<and> stored gr x = Some c) \<and>
         (\<exists>k. checkGidOffset gl (probes k) x = Done True)))"


text \<open>The count a \<^verbatim>\<open>map[int]int\<close> gives for a key: 0 for a key it does not hold.\<close>

definition votes_of :: "(int \<rightharpoonup> int) \<Rightarrow> int \<Rightarrow> int" where
  "votes_of m x = (case m x of None \<Rightarrow> 0 | Some c \<Rightarrow> c)"




text \<open>
  A goroutine for the overflow of \<^verbatim>\<open>offset += gidSize\<close>: its control block lies so that
  \<open>g + (2^63 - 8)\<close> and \<open>g - 2^63\<close> are the two readable addresses \<open>0x10FE8\<close> and
  \<open>0x10FF0\<close>, and the second holds its id 7.
\<close>

definition wrap_goroutine :: goroutine where
  "wrap_goroutine =
     \<lparr>stack_trace = ''goroutine 7 [running]:'',
      g_ptr = 0x8000000000010FF0,
      memory = (\<lambda>a. if a = 0x10FF0 then Some 7 else if a = 0x10FE8 then Some 0 else None),
      panicOnFault = False\<rparr>"

text \<open>
  A runtime with the layout \<open>L\<close>: every goroutine that takes part in a run of
  \<^verbatim>\<open>getGidOffset\<close> has an id that \<^verbatim>\<open>slowGid\<close> reads and that is not 0, a control block
  that is not nil and is readable over the whole window of \<open>gSize\<close> bytes, and its own
  id stored at every offset of \<open>L\<close>. What the control block holds at other offsets is
  left open.
\<close>

definition holds_id_at :: "globals \<Rightarrow> goroutine \<Rightarrow> int set \<Rightarrow> bool" where
  "holds_id_at gl gr L =
     (\<exists>c. slowGid gl gr = Done c \<and> c \<noteq> 0 \<and> getg gr \<noteq> 0 \<and>
          (\<forall>x\<in>progression 0 gSize. stored gr x \<noteq> None) \<and>
          (\<forall>x\<in>L. stored gr x = Some c))"

definition layout_at :: "globals \<Rightarrow> runtime_env \<Rightarrow> int set \<Rightarrow> bool" where
  "layout_at gl env L =
     (L \<subseteq> progression 0 gSize \<and>
      (\<forall>i<voterCount. holds_id_at gl (voter_goroutine env i) L \<and>
         (\<forall>k. \<forall>j<checkCount. holds_id_at gl (probe_goroutine env i k j) L)))"

text \<open>
  A control block of 256 bytes at \<open>base\<close> that holds the id at the given offsets and 0
  elsewhere, and four runtimes made of such goroutines. In \<open>run_a\<close> and \<open>run_b\<close> the id
  is stored at the offsets 0 and 8. In \<open>run_c\<close> and \<open>run_d\<close> it is stored at offset 16;
  in \<open>run_d\<close> the first voter and its probes hold their id at offset 8 as well.
\<close>

definition block_goroutine :: "string \<Rightarrow> addr \<Rightarrow> GoID \<Rightarrow> int list \<Rightarrow> goroutine" where
  "block_goroutine trace base ident offsets =
     \<lparr>stack_trace = trace,
      g_ptr = base,
      memory = (\<lambda>a. if base \<le> a \<and> a < base + 256
                     then if a \<in> set (map (\<lambda>x. base + word_of_int x) offsets)
                          then Some ident else Some 0
                     else None),
      panicOnFault = False\<rparr>"

definition run_a :: runtime_env where
  "run_a =
     \<lparr>voter_goroutine = (\<lambda>i. block_goroutine ''goroutine 7 [running]:'' 0x10000 7 [0, 8]),
      probe_goroutine = (\<lambda>i k j. block_goroutine ''goroutine 7 [running]:'' 0x10000 7 [0, 8])\<rparr>"

definition run_b :: runtime_env where
  "run_b =
     \<lparr>voter_goroutine = (\<lambda>i. block_goroutine ''goroutine 9 [running]:'' 0x20000 9 [0, 8]),
      probe_goroutine = (\<lambda>i k j. block_goroutine ''goroutine 9 [running]:'' 0x20000 9 [0, 8])\<rparr>"

definition run_c :: runtime_env where
  "run_c =
     \<lparr>voter_goroutine = (\<lambda>i. block_goroutine ''goroutine 7 [running]:'' 0x10000 7 [16]),
      probe_goroutine = (\<lambda>i k j. block_goroutine ''goroutine 7 [running]:'' 0x10000 7 [16])\<rparr>"

definition run_d :: runtime_env where
  "run_d =
     \<lparr>voter_goroutine = (\<lambda>i.
        if i = 0 then block_goroutine ''goroutine 9 [running]:'' 0x20000 9 [8, 16]
        else block_goroutine ''goroutine 9 [running]:'' 0x20000 9 [16]),
      probe_goroutine = (\<lambda>i k j.
        if i = 0 then block_goroutine ''goroutine 9 [running]:'' 0x20000 9 [8, 16]
        else block_goroutine ''goroutine 9 [running]:'' 0x20000 9 [16])\<rparr>"


section \<open>The package variables as state\<close>

text \<open>
  The functions of \<^verbatim>\<open>goid.go\<close> once more, with the package's variables as a state that
  every function takes and gives back, so that an assignment to a variable could be
  written wherever the source had one. A read of a variable is a load; the two
  assignments of the package initialisation are stores, and a store to \<^verbatim>\<open>gidOffset\<close> is
  counted. The lemmas \<open>*_st_eq\<close> show that these functions compute what the functions
  above compute.
\<close>

record process =
  vars :: globals
  gidOffset_assignments :: nat

definition load_goroutinePrefix :: "process \<Rightarrow> string \<times> process" where
  "load_goroutinePrefix s = (goroutinePrefix (vars s), s)"

definition load_gidOffset :: "process \<Rightarrow> int \<times> process" where
  "load_gidOffset s = (gidOffset (vars s), s)"

definition store_goroutinePrefix :: "string \<Rightarrow> process \<Rightarrow> process" where
  "store_goroutinePrefix v s = s\<lparr>vars := (vars s)\<lparr>goroutinePrefix := v\<rparr>\<rparr>"

definition store_gidOffset :: "int \<Rightarrow> process \<Rightarrow> process" where
  "store_gidOffset v s =
     s\<lparr>vars := (vars s)\<lparr>gidOffset := v\<rparr>,
       gidOffset_assignments := Suc (gidOffset_assignments s)\<rparr>"

definition slowGid_st :: "process \<Rightarrow> goroutine \<Rightarrow> GoID exec \<times> process" where
  "slowGid_st s gr =
     (case load_goroutinePrefix s of (pre, s1) \<Rightarrow> (parseGid pre (Stack gr 32), s1))"

definition FastGetGoIDAvailable_st :: "process \<Rightarrow> bool \<times> process" where
  "FastGetGoIDAvailable_st s = (case load_gidOffset s of (off, s1) \<Rightarrow> (off \<ge> 0, s1))"

definition fastGid_st :: "process \<Rightarrow> goroutine \<Rightarrow> GoID exec \<times> process" where
  "fastGid_st s gr =
     (case load_gidOffset s of (off, s1) \<Rightarrow> (gidFromG gr (getg gr) off, s1))"

definition GetGoID_st :: "process \<Rightarrow> goroutine \<Rightarrow> GoID exec \<times> process" where
  "GetGoID_st s gr =
     (case FastGetGoIDAvailable_st s of
        (available, s1) \<Rightarrow> if available then fastGid_st s1 gr else slowGid_st s1 gr)"

definition findGidOffset_st ::
  "process \<Rightarrow> goroutine \<Rightarrow> int \<Rightarrow> int
     \<Rightarrow> (int exec \<times> process \<times> goroutine \<times> addr list) option" where
  "findGidOffset_st s gr startOffset maxOffset =
     (case slowGid_st s gr of
        (Done currGid, s1) \<Rightarrow>
          (let g = getg gr;
               oldPanicOnFault = panicOnFault gr;
               gr1 = gr\<lparr>panicOnFault := True\<rparr>
           in case (if currGid \<noteq> 0 \<and> g \<noteq> 0 then scan gr1 g currGid startOffset maxOffset
                    else Some (Done (- 1), [])) of
                None \<Rightarrow> None
              | Some (Fatal, reads) \<Rightarrow> Some (Fatal, s1, gr1, reads)
              | Some (Panicking, reads) \<Rightarrow>
                  Some (Done (- 1), s1, gr1\<lparr>panicOnFault := oldPanicOnFault\<rparr>, reads)
              | Some (Done r, reads) \<Rightarrow>
                  Some (Done r, s1, gr1\<lparr>panicOnFault := oldPanicOnFault\<rparr>, reads))
      | (Panicking, s1) \<Rightarrow> Some (Panicking, s1, gr, [])
      | (Fatal, s1) \<Rightarrow> Some (Fatal, s1, gr, []))"

definition probe_st :: "process \<Rightarrow> goroutine \<Rightarrow> int \<Rightarrow> bool exec \<times> process" where
  "probe_st s gr offset =
     (case slowGid_st s gr of
        (Done gid, s1) \<Rightarrow>
          (let g = getg gr
           in case (if gid \<noteq> 0 \<and> g \<noteq> 0 then
                      (case gidFromG gr g offset of
                         Done v \<Rightarrow> Done (v = gid)
                       | Panicking \<Rightarrow> Panicking
                       | Fatal \<Rightarrow> Fatal)
                    else Done False) of
                Done match \<Rightarrow> (Done match, s1)
              | Panicking \<Rightarrow> (Done False, s1)
              | Fatal \<Rightarrow> (Fatal, s1))
      | (Panicking, s1) \<Rightarrow> (Fatal, s1)
      | (Fatal, s1) \<Rightarrow> (Fatal, s1))"

fun probes_st ::
  "process \<Rightarrow> (nat \<Rightarrow> goroutine) \<Rightarrow> int \<Rightarrow> nat list \<Rightarrow> bool exec list \<times> process" where
  "probes_st s probes offset [] = ([], s)"
| "probes_st s probes offset (i # rest) =
     (case probe_st s (spawn (probes i)) offset of
        (r, s1) \<Rightarrow>
          (case probes_st s1 probes offset rest of (rs, s2) \<Rightarrow> (r # rs, s2)))"

definition checkGidOffset_st ::
  "process \<Rightarrow> (nat \<Rightarrow> goroutine) \<Rightarrow> int \<Rightarrow> bool exec \<times> process" where
  "checkGidOffset_st s probes offset =
     (case probes_st s probes offset [0..<checkCount] of (rs, s1) \<Rightarrow> (collect rs True, s1))"

partial_function (option) voter_loop_st ::
  "process \<Rightarrow> (nat \<Rightarrow> nat \<Rightarrow> goroutine) \<Rightarrow> goroutine \<Rightarrow> nat \<Rightarrow> int \<Rightarrow> int list
     \<Rightarrow> (int list exec \<times> process) option" where
  "voter_loop_st s probes gr k offset localCandidateOffsets =
     (if offset < gSize then
        (case findGidOffset_st s gr offset gSize of
           None \<Rightarrow> None
         | Some (Done found, s1, gr', reads) \<Rightarrow>
             if found = - 1 then Some (Done localCandidateOffsets, s1)
             else (case checkGidOffset_st s1 (probes k) found of
                     (Done ok, s2) \<Rightarrow>
                       voter_loop_st s2 probes gr' (Suc k) (wrap64 (found + gidSize))
                         (if ok then localCandidateOffsets @ [found]
                          else localCandidateOffsets)
                   | (Panicking, s2) \<Rightarrow> Some (Panicking, s2)
                   | (Fatal, s2) \<Rightarrow> Some (Fatal, s2))
         | Some (Panicking, s1, gr', reads) \<Rightarrow> Some (Panicking, s1)
         | Some (Fatal, s1, gr', reads) \<Rightarrow> Some (Fatal, s1))
      else Some (Done localCandidateOffsets, s))"

definition voter_st ::
  "process \<Rightarrow> runtime_env \<Rightarrow> nat \<Rightarrow> (int list exec \<times> process) option" where
  "voter_st s env i =
     voter_loop_st s (probe_goroutine env i) (spawn (voter_goroutine env i)) 0 0 []"

fun voters_st ::
  "process \<Rightarrow> runtime_env \<Rightarrow> nat list \<Rightarrow> (int list exec option list \<times> process) option" where
  "voters_st s env [] = Some ([], s)"
| "voters_st s env (i # rest) =
     (case voter_st s env i of
        None \<Rightarrow> None
      | Some (r, s1) \<Rightarrow>
          (case voters_st s1 env rest of
             None \<Rightarrow> None
           | Some (rs, s2) \<Rightarrow> Some (Some r # rs, s2)))"

definition getGidOffset_st ::
  "process \<Rightarrow> runtime_env \<Rightarrow> int list \<Rightarrow> (int exec \<times> process) option" where
  "getGidOffset_st s env order =
     (case voters_st s env [0..<voterCount] of
        None \<Rightarrow> None
      | Some (rs, s1) \<Rightarrow>
          (case gather rs of
             None \<Rightarrow> None
           | Some (Done ls) \<Rightarrow> Some (Done (pick (count_votes ls) order), s1)
           | Some Panicking \<Rightarrow> Some (Fatal, s1)
           | Some Fatal \<Rightarrow> Some (Fatal, s1)))"

text \<open>
  Before the package is initialised its variables hold their zero values and nothing has
  been assigned. \<^verbatim>\<open>var ( goroutinePrefix = "goroutine "; gidOffset = getGidOffset() )\<close>
  is one store to each variable.
\<close>

definition zero_process :: process where
  "zero_process = \<lparr>vars = \<lparr>goroutinePrefix = [], gidOffset = 0\<rparr>, gidOffset_assignments = 0\<rparr>"

definition package_init_st :: "runtime_env \<Rightarrow> int list \<Rightarrow> process exec option" where
  "package_init_st env order =
     (let s1 = store_goroutinePrefix ''goroutine '' zero_process
      in case getGidOffset_st s1 env order of
           None \<Rightarrow> None
         | Some (Done r, s2) \<Rightarrow> Some (Done (store_gidOffset r s2))
         | Some (Panicking, s2) \<Rightarrow> Some Fatal
         | Some (Fatal, s2) \<Rightarrow> Some Fatal)"

text \<open>
  The calls a goroutine can make into the package, and the state a call leaves behind:
  the process state the function gives back and the calling goroutine. A call that
  panics leaves a state too (the panic may be recovered by the caller); there is none
  after a fatal error or when the call does not return.
\<close>

datatype operation =
    CallGetGoID
  | CallFastGetGoIDAvailable
  | CallFastGid
  | CallSlowGid
  | CallFindGidOffset int int
  | CallCheckGidOffset "nat \<Rightarrow> goroutine" int
  | CallGetGidOffset runtime_env "int list"

definition alive :: "'a exec \<Rightarrow> 's \<Rightarrow> 's option" where
  "alive r s = (case r of Done v \<Rightarrow> Some s | Panicking \<Rightarrow> Some s | Fatal \<Rightarrow> None)"

fun perform :: "operation \<Rightarrow> process \<times> goroutine \<Rightarrow> (process \<times> goroutine) option" where
  "perform CallGetGoID (s, gr) = (case GetGoID_st s gr of (r, s') \<Rightarrow> alive r (s', gr))"
| "perform CallFastGetGoIDAvailable (s, gr) =
     (case FastGetGoIDAvailable_st s of (available, s') \<Rightarrow> Some (s', gr))"
| "perform CallFastGid (s, gr) = (case fastGid_st s gr of (r, s') \<Rightarrow> alive r (s', gr))"
| "perform CallSlowGid (s, gr) = (case slowGid_st s gr of (r, s') \<Rightarrow> alive r (s', gr))"
| "perform (CallFindGidOffset startOffset maxOffset) (s, gr) =
     (case findGidOffset_st s gr startOffset maxOffset of
        None \<Rightarrow> None
      | Some (r, s', gr', reads) \<Rightarrow> alive r (s', gr'))"
| "perform (CallCheckGidOffset probes offset) (s, gr) =
     (case checkGidOffset_st s probes offset of (r, s') \<Rightarrow> alive r (s', gr))"
| "perform (CallGetGidOffset env order) (s, gr) =
     (case getGidOffset_st s env order of
        None \<Rightarrow> None
      | Some (r, s') \<Rightarrow> alive r (s', gr))"

fun run :: "operation list \<Rightarrow> process \<times> goroutine \<Rightarrow> (process \<times> goroutine) option" where
  "run [] s = Some s"
| "run (c # cs) s = (case perform c s of None \<Rightarrow> None | Some s' \<Rightarrow> run cs s')"

section \<open>Properties of slowGid\<close>

text \<open>The two loops are evaluated by their recursion equations.\<close>

declare scan.simps [code] voter_loop.simps [code]

lemma IndexByte_le: "IndexByte s c \<le> int (length s)"
  by (induction s) (auto simp: Let_def)

lemma slice_to_IndexByte:
  "0 < IndexByte s c \<Longrightarrow> slice_to s (IndexByte s c) = Done (take (nat (IndexByte s c)) s)"
  using IndexByte_le [of s c] by (simp add: slice_to_def)






lemma parseGid_never_panics: "\<exists>v. parseGid pre blob = Done v"
  by (auto simp: parseGid_def Let_def slice_to_IndexByte split: sum.splits)





section \<open>Properties of findGidOffset\<close>

lemma wrap64_id: "- (2 ^ 63) \<le> x \<Longrightarrow> x < 2 ^ 63 \<Longrightarrow> wrap64 x = x"
  by (simp add: wrap64_def)

lemma progression_step:
  "offset < m \<Longrightarrow> progression offset m = insert offset (progression (offset + gidSize) m)"
  unfolding progression_def gidSize_def by (auto; presburger)

lemma progression_empty: "m \<le> offset \<Longrightarrow> progression offset m = {}"
  by (auto simp: progression_def)

lemma progression_ge: "x \<in> progression offset m \<Longrightarrow> offset \<le> x \<and> x < m"
  by (simp add: progression_def)

lemma gidFromG_cases:
  "gidFromG gr g offset =
     (case memory gr (g + word_of_int offset) of
        Some v \<Rightarrow> Done v
      | None \<Rightarrow> if panicOnFault gr \<or> g + word_of_int offset < nilPage then Panicking else Fatal)"
  by (simp add: gidFromG_def Let_def)

lemma scan_past: "maxOffset \<le> offset \<Longrightarrow> scan gr g c offset maxOffset = Some (Done (- 1), [])"
  by (subst scan.simps) simp

lemma scan_fault:
  "offset < maxOffset \<Longrightarrow> memory gr (g + word_of_int offset) = None \<Longrightarrow>
   scan gr g c offset maxOffset =
     Some (if panicOnFault gr \<or> g + word_of_int offset < nilPage then Panicking else Fatal,
           [g + word_of_int offset])"
  by (subst scan.simps) (simp add: gidFromG_cases)

lemma scan_match:
  "offset < maxOffset \<Longrightarrow> memory gr (g + word_of_int offset) = Some c \<Longrightarrow>
   scan gr g c offset maxOffset = Some (Done offset, [g + word_of_int offset])"
  by (subst scan.simps) (simp add: gidFromG_cases)

lemma scan_next:
  "offset < maxOffset \<Longrightarrow> memory gr (g + word_of_int offset) = Some v \<Longrightarrow> v \<noteq> c \<Longrightarrow>
   scan gr g c offset maxOffset =
     Option.bind (scan gr g c (wrap64 (offset + gidSize)) maxOffset)
       (\<lambda>(r, reads). Some (r, (g + word_of_int offset) # reads))"
  by (subst scan.simps) (simp add: gidFromG_cases)

lemma scan_spec:
  assumes "maxOffset \<le> 2 ^ 63 - 8"
  shows "- (2 ^ 63) \<le> offset \<Longrightarrow>
    \<exists>r reads. scan gr g c offset maxOffset = Some (r, reads) \<and>
               scan_post gr g c offset maxOffset r reads"
proof (induction "nat (maxOffset - offset)" arbitrary: offset rule: less_induct)
  case less
  show ?case
  proof (cases "offset < maxOffset")
    case False
    then show ?thesis
      by (simp add: scan_past scan_post_def progression_empty)
  next
    case lt: True
    note step = progression_step [OF lt]
    show ?thesis
    proof (cases "memory gr (g + word_of_int offset)")
      case None
      then show ?thesis
        using lt by (auto simp: scan_fault scan_post_def step)
    next
      case (Some v)
      show ?thesis
      proof (cases "v = c")
        case True
        with Some lt show ?thesis
          by (auto simp: scan_match scan_post_def step gidSize_def dest: progression_ge)
      next
        case False
        have w: "wrap64 (offset + gidSize) = offset + gidSize"
          using lt assms less.prems by (intro wrap64_id) (simp_all add: gidSize_def)
        have "nat (maxOffset - (offset + gidSize)) < nat (maxOffset - offset)"
          using lt by (simp add: gidSize_def)
        moreover have "- (2 ^ 63) \<le> offset + gidSize"
          using less.prems by (simp add: gidSize_def)
        ultimately obtain r reads where
          rec: "scan gr g c (offset + gidSize) maxOffset = Some (r, reads)"
          and post: "scan_post gr g c (offset + gidSize) maxOffset r reads"
          using less.hyps by blast
        have "scan gr g c offset maxOffset = Some (r, (g + word_of_int offset) # reads)"
          using lt Some False by (simp add: scan_next w rec)
        moreover have "scan_post gr g c offset maxOffset r ((g + word_of_int offset) # reads)"
          using post Some False unfolding scan_post_def step
          by (auto dest: progression_ge simp: gidSize_def)
        ultimately show ?thesis by blast
      qed
    qed
  qed
qed


lemma slowGid_Done: "\<exists>v. slowGid gl gr = Done v"
  unfolding slowGid_def by (rule parseGid_never_panics)

lemma findGidOffset_eq:
  "slowGid gl gr = Done c \<Longrightarrow>
   findGidOffset gl gr s m =
     (case (if c \<noteq> 0 \<and> getg gr \<noteq> 0
            then scan (gr\<lparr>panicOnFault := True\<rparr>) (getg gr) c s m
            else Some (Done (- 1), [])) of
        None \<Rightarrow> None
      | Some (Fatal, reads) \<Rightarrow> Some (Fatal, gr\<lparr>panicOnFault := True\<rparr>, reads)
      | Some (Panicking, reads) \<Rightarrow> Some (Done (- 1), gr, reads)
      | Some (Done r, reads) \<Rightarrow> Some (Done r, gr, reads))"
  by (auto simp: findGidOffset_def Let_def split: option.splits exec.splits)

text \<open>What holds of the loop whenever it ends, with no assumption on the bounds.\<close>

lemma scan_partial:
  assumes "scan gr g c offset maxOffset = Some x"
  shows "(panicOnFault gr \<longrightarrow> fst x \<noteq> Fatal) \<and>
         ((\<exists>a\<in>set (snd x). memory gr a = None) = (fst x = Panicking \<or> fst x = Fatal))"
proof (rule scan.raw_induct [where P = "\<lambda>gr g c offset maxOffset x.
          (panicOnFault gr \<longrightarrow> fst x \<noteq> Fatal) \<and>
          ((\<exists>a\<in>set (snd x). memory gr a = None) = (fst x = Panicking \<or> fst x = Fatal))",
        OF _ assms], goal_cases)
  case (1 scan gr g c offset maxOffset x)
  note body = "1"(2)
  show ?case
  proof (cases "offset < maxOffset")
    case False
    with body show ?thesis by auto
  next
    case lt: True
    show ?thesis
    proof (cases "memory gr (g + word_of_int offset)")
      case None
      with lt body show ?thesis by (auto simp: gidFromG_cases split: if_splits)
    next
      case (Some v)
      show ?thesis
      proof (cases "v = c")
        case True
        with Some lt body show ?thesis by (auto simp: gidFromG_cases)
      next
        case False
        with Some lt body obtain r reads where
          rec: "scan gr g c (wrap64 (offset + gidSize)) maxOffset = Some (r, reads)"
          and x: "x = (r, (g + word_of_int offset) # reads)"
          by (auto simp: gidFromG_cases split: Option.bind_splits)
        from "1"(1) [OF rec] x Some show ?thesis by auto
      qed
    qed
  qed
qed

lemma sample_slowGid: "slowGid initial_globals sample_goroutine = Done 7"
  by code_simp

lemma sample_getg: "getg sample_goroutine = 0x10000"
  by (simp add: getg_def sample_goroutine_def)

lemma sample_memory:
  "memory sample_goroutine a =
     (if a = 0x10010 then Some 7 else if 0x10000 \<le> a \<and> a < 0x10018 then Some 0 else None)"
  by (simp add: sample_goroutine_def)

lemma sample_find_0_24:
  "findGidOffset initial_globals sample_goroutine 0 24 =
     Some (Done 16, sample_goroutine, [0x10000, 0x10008, 0x10010])"
  by (simp add: findGidOffset_eq [OF sample_slowGid] sample_getg scan_next [where v = 0] scan_match
        sample_memory wrap64_def gidSize_def)

lemma sample_find_24_256:
  "findGidOffset initial_globals sample_goroutine 24 256 =
     Some (Done (- 1), sample_goroutine, [0x10018])"
  by (simp add: findGidOffset_eq [OF sample_slowGid] sample_getg scan_fault
        sample_memory wrap64_def gidSize_def)

lemma sample_find_10_9:
  "findGidOffset initial_globals sample_goroutine 10 9 =
     Some (Done (- 1), sample_goroutine, [])"
  by (simp add: findGidOffset_eq [OF sample_slowGid] sample_getg scan_past)

lemma findGidOffset_total:
  assumes "- (2 ^ 63) \<le> s" and "m \<le> 2 ^ 63 - 8" and c: "slowGid gl gr = Done c"
  shows "\<exists>r reads. findGidOffset gl gr s m = Some (Done r, gr, reads) \<and>
           (if c \<noteq> 0 \<and> getg gr \<noteq> 0 then
              \<exists>r'. scan (gr\<lparr>panicOnFault := True\<rparr>) (getg gr) c s m = Some (r', reads) \<and>
                    scan_post (gr\<lparr>panicOnFault := True\<rparr>) (getg gr) c s m r' reads \<and>
                    r = (case r' of Done x \<Rightarrow> x | Panicking \<Rightarrow> - 1 | Fatal \<Rightarrow> - 1)
            else r = - 1 \<and> reads = [])"
proof (cases "c \<noteq> 0 \<and> getg gr \<noteq> 0")
  case False
  then show ?thesis by (auto simp: findGidOffset_eq [OF c])
next
  case True
  obtain r' reads where sc: "scan (gr\<lparr>panicOnFault := True\<rparr>) (getg gr) c s m = Some (r', reads)"
    and post: "scan_post (gr\<lparr>panicOnFault := True\<rparr>) (getg gr) c s m r' reads"
    using scan_spec [OF assms(2) assms(1)] by blast
  from post have "r' \<noteq> Fatal" by (simp add: scan_post_def)
  with True sc post show ?thesis
    by (cases r') (simp_all add: findGidOffset_eq [OF c])
qed

text \<open>
  Claim C3, with the bound the code needs. \<^verbatim>\<open>findGidOffset\<close> returns \<open>-1\<close>, having read
  nothing, when \<^verbatim>\<open>slowGid()\<close> is 0 or \<^verbatim>\<open>getg()\<close> is nil. Otherwise let
  \<open>maxOffset \<le> 2^63 - 8\<close>, so that \<^verbatim>\<open>offset += gidSize\<close> cannot overflow Go's
  \<^verbatim>\<open>int\<close>. Then \<^verbatim>\<open>findGidOffset\<close> returns and leaves the goroutine as it was; when
  none of the reads of the scan faulted, the result is the smallest offset among
  \<open>startOffset, startOffset + 8, ...\<close> below \<open>maxOffset\<close> at which the control block
  holds the value of \<^verbatim>\<open>slowGid()\<close>, and it is \<open>-1\<close> when there is no such offset.
\<close>

theorem findGidOffset_first_match:
  "(slowGid gl gr = Done 0 \<or> getg gr = 0 \<longrightarrow>
      findGidOffset gl gr startOffset maxOffset = Some (Done (- 1), gr, [])) \<and>
   (- (2 ^ 63) \<le> startOffset \<and> maxOffset \<le> 2 ^ 63 - 8 \<longrightarrow>
      (\<exists>r reads. findGidOffset gl gr startOffset maxOffset = Some (Done r, gr, reads) \<and>
         (\<forall>currGid. slowGid gl gr = Done currGid \<and> currGid \<noteq> 0 \<and> getg gr \<noteq> 0 \<and>
              (\<forall>a\<in>set reads. memory gr a \<noteq> None) \<longrightarrow>
            (r \<in> progression startOffset maxOffset \<and> stored gr r = Some currGid \<and>
             (\<forall>y\<in>progression startOffset maxOffset. stored gr y = Some currGid \<longrightarrow> r \<le> y))
            \<or> (r = - 1 \<and>
                (\<forall>y\<in>progression startOffset maxOffset. stored gr y \<noteq> Some currGid)))))"
proof -
  obtain c where c: "slowGid gl gr = Done c" using slowGid_Done by blast
  have null: "findGidOffset gl gr startOffset maxOffset = Some (Done (- 1), gr, [])"
    if "slowGid gl gr = Done 0 \<or> getg gr = 0"
    using that c by (auto simp: findGidOffset_eq [OF c])
  have main: "\<exists>r reads. findGidOffset gl gr startOffset maxOffset = Some (Done r, gr, reads) \<and>
         (\<forall>currGid. slowGid gl gr = Done currGid \<and> currGid \<noteq> 0 \<and> getg gr \<noteq> 0 \<and>
              (\<forall>a\<in>set reads. memory gr a \<noteq> None) \<longrightarrow>
            (r \<in> progression startOffset maxOffset \<and> stored gr r = Some currGid \<and>
             (\<forall>y\<in>progression startOffset maxOffset. stored gr y = Some currGid \<longrightarrow> r \<le> y))
            \<or> (r = - 1 \<and>
                (\<forall>y\<in>progression startOffset maxOffset. stored gr y \<noteq> Some currGid)))"
    if bounds: "- (2 ^ 63) \<le> startOffset" "maxOffset \<le> 2 ^ 63 - 8"
  proof -
    from findGidOffset_total [OF bounds c] obtain r reads where
      f: "findGidOffset gl gr startOffset maxOffset = Some (Done r, gr, reads)"
      and p: "if c \<noteq> 0 \<and> getg gr \<noteq> 0 then
                \<exists>r'. scan (gr\<lparr>panicOnFault := True\<rparr>) (getg gr) c startOffset maxOffset
                        = Some (r', reads) \<and>
                      scan_post (gr\<lparr>panicOnFault := True\<rparr>) (getg gr) c startOffset maxOffset
                        r' reads \<and>
                      r = (case r' of Done x \<Rightarrow> x | Panicking \<Rightarrow> - 1 | Fatal \<Rightarrow> - 1)
              else r = - 1 \<and> reads = []"
      by blast
    have "(r \<in> progression startOffset maxOffset \<and> stored gr r = Some c \<and>
             (\<forall>y\<in>progression startOffset maxOffset. stored gr y = Some c \<longrightarrow> r \<le> y))
            \<or> (r = - 1 \<and>
                (\<forall>y\<in>progression startOffset maxOffset. stored gr y \<noteq> Some c))"
      if nz: "c \<noteq> 0" "getg gr \<noteq> 0" and nofault: "\<forall>a\<in>set reads. memory gr a \<noteq> None"
    proof -
      from p nz obtain r' where
        post: "scan_post (gr\<lparr>panicOnFault := True\<rparr>) (getg gr) c startOffset maxOffset
                 r' reads"
        and r: "r = (case r' of Done x \<Rightarrow> x | Panicking \<Rightarrow> - 1 | Fatal \<Rightarrow> - 1)"
        by auto
      from post nofault have "r' \<noteq> Panicking" "r' \<noteq> Fatal"
        by (auto simp: scan_post_def)
      then obtain x where x: "r' = Done x" by (cases r') auto
      with r have "r = x" by simp
      with post x show ?thesis
        by (simp add: scan_post_def stored_def)
    qed
    with f c show ?thesis by auto
  qed
  from null main show ?thesis by blast
qed

text \<open>In the sample control block the id 7 is found at offset 16, after two other reads.\<close>

theorem findGidOffset_first_match_witness:
  "- (2 ^ 63) \<le> (0::int) \<and> (24::int) \<le> 2 ^ 63 - 8 \<and>
   slowGid initial_globals sample_goroutine = Done 7 \<and>
   getg sample_goroutine \<noteq> 0 \<and>
   findGidOffset initial_globals sample_goroutine 0 24 =
     Some (Done 16, sample_goroutine, [0x10000, 0x10008, 0x10010]) \<and>
   16 \<in> progression 0 24 \<and>
   stored sample_goroutine 16 = Some 7 \<and>
   stored sample_goroutine 0 = Some 0 \<and>
   stored sample_goroutine 8 = Some 0"
  using findGidOffset_first_match [where gl = initial_globals and gr = sample_goroutine
      and startOffset = 0 and maxOffset = 24]
  by (simp add: sample_slowGid sample_getg sample_find_0_24 sample_memory progression_def
        stored_def gidSize_def)

lemma wrap_slowGid: "slowGid initial_globals wrap_goroutine = Done 7"
  by code_simp

lemma wrap_getg: "getg wrap_goroutine = 0x8000000000010FF0"
  by (simp add: getg_def wrap_goroutine_def)

lemma wrap_memory:
  "memory wrap_goroutine a =
     (if a = 0x10FF0 then Some 7 else if a = 0x10FE8 then Some 0 else None)"
  by (simp add: wrap_goroutine_def)

lemma wrap_find:
  "findGidOffset initial_globals wrap_goroutine 9223372036854775800 9223372036854775807 =
     Some (Done (- 9223372036854775808), wrap_goroutine, [0x10FE8, 0x10FF0])"
  by (simp add: findGidOffset_eq [OF wrap_slowGid] wrap_getg scan_next [where v = 0] scan_match
        wrap_memory wrap64_def gidSize_def)

text \<open>
  Claim C3 as stated, for all bounds, fails. In \<^verbatim>\<open>findGidOffset(MaxInt64 - 7, MaxInt64)\<close>
  the only offset of the window is \<open>2^63 - 8\<close>, where the control block holds 0. The
  read does not fault, \<^verbatim>\<open>offset += 8\<close> wraps to \<open>-2^63\<close>, which is below
  \<open>maxOffset\<close>, and the next read, which does not fault either, finds the id: the
  result is \<open>-2^63\<close>, neither an offset of the window nor \<open>-1\<close>.
\<close>

theorem findGidOffset_overflow_counterexample:
  "slowGid initial_globals wrap_goroutine = Done 7 \<and>
   getg wrap_goroutine \<noteq> 0 \<and>
   findGidOffset initial_globals wrap_goroutine 9223372036854775800 9223372036854775807 =
     Some (Done (- 9223372036854775808), wrap_goroutine, [0x10FE8, 0x10FF0]) \<and>
   memory wrap_goroutine 0x10FE8 = Some 0 \<and>
   memory wrap_goroutine 0x10FF0 = Some 7 \<and>
   progression 9223372036854775800 9223372036854775807 = {9223372036854775800} \<and>
   stored wrap_goroutine 9223372036854775800 = Some 0"
proof -
  have "progression 9223372036854775800 9223372036854775807 = {9223372036854775800}"
    unfolding progression_def gidSize_def by (auto; presburger)
  moreover have "stored wrap_goroutine 9223372036854775800 = Some 0"
    by (simp add: stored_def wrap_getg wrap_memory)
  ultimately show ?thesis
    by (simp add: wrap_slowGid wrap_getg wrap_find wrap_memory)
qed

lemma findGidOffset_partial:
  assumes ret: "findGidOffset gl gr startOffset maxOffset = Some x"
  shows "\<exists>r reads. x = (Done r, gr, reads) \<and>
           ((\<exists>a\<in>set reads. memory gr a = None) \<longrightarrow> r = - 1)"
proof -
  obtain c where c: "slowGid gl gr = Done c" using slowGid_Done by blast
  let ?gr1 = "gr\<lparr>panicOnFault := True\<rparr>"
  show ?thesis
  proof (cases "c \<noteq> 0 \<and> getg gr \<noteq> 0")
    case False
    with ret show ?thesis by (auto simp: findGidOffset_eq [OF c])
  next
    case True
    with ret obtain r' reads where
      sc: "scan ?gr1 (getg gr) c startOffset maxOffset = Some (r', reads)"
      by (auto simp: findGidOffset_eq [OF c] split: option.splits)
    from scan_partial [OF sc] have nf: "r' \<noteq> Fatal"
      and fl: "(\<exists>a\<in>set reads. memory gr a = None) = (r' = Panicking)"
      by auto
    show ?thesis
    proof (cases r')
      case (Done r)
      with ret True sc have "x = (Done r, gr, reads)"
        by (simp add: findGidOffset_eq [OF c])
      with fl Done show ?thesis by auto
    next
      case Panicking
      with ret True sc have "x = (Done (- 1), gr, reads)"
        by (simp add: findGidOffset_eq [OF c])
      then show ?thesis by simp
    next
      case Fatal
      with nf show ?thesis by simp
    qed
  qed
qed

text \<open>
  Claim C4. Whenever \<^verbatim>\<open>findGidOffset\<close> returns, it returns a value (no panic leaves it
  and no fault is fatal, since the scan runs with the panic-on-fault flag set), the
  goroutine is as it was before the call, with its panic-on-fault flag at the old value,
  and the value is \<open>-1\<close> if one of the reads of the scan faulted. It does return when
  the bounds rule out an overflow of \<^verbatim>\<open>offset += gidSize\<close>.
\<close>

theorem findGidOffset_recovers_fault:
  "(\<forall>x. findGidOffset gl gr startOffset maxOffset = Some x \<longrightarrow>
      (\<exists>r reads. x = (Done r, gr, reads) \<and>
         ((\<exists>a\<in>set reads. memory gr a = None) \<longrightarrow> r = - 1))) \<and>
   (- (2 ^ 63) \<le> startOffset \<and> maxOffset \<le> 2 ^ 63 - 8 \<longrightarrow>
      (\<exists>x. findGidOffset gl gr startOffset maxOffset = Some x))"
proof -
  obtain c where c: "slowGid gl gr = Done c" using slowGid_Done by blast
  have tot: "\<exists>x. findGidOffset gl gr startOffset maxOffset = Some x"
    if "- (2 ^ 63) \<le> startOffset" "maxOffset \<le> 2 ^ 63 - 8"
    using findGidOffset_total [OF that c] by blast
  from findGidOffset_partial [of gl gr startOffset maxOffset] tot show ?thesis by blast
qed

text \<open>The read at offset 24 of the sample control block faults; the flag was off and is off.\<close>

theorem findGidOffset_recovers_fault_witness:
  "- (2 ^ 63) \<le> (24::int) \<and> (256::int) \<le> 2 ^ 63 - 8 \<and>
   findGidOffset initial_globals sample_goroutine 24 256 =
     Some (Done (- 1), sample_goroutine, [0x10018]) \<and>
   memory sample_goroutine 0x10018 = None \<and>
   \<not> panicOnFault sample_goroutine"
  using findGidOffset_recovers_fault [of initial_globals sample_goroutine 24 256]
  by (simp add: sample_find_24_256 sample_memory) (simp add: sample_goroutine_def)

text \<open>
  Claim C9. With \<open>startOffset \<ge> maxOffset\<close>, \<^verbatim>\<open>findGidOffset\<close> returns \<open>-1\<close> and has
  read no address of the control block.
\<close>

theorem findGidOffset_empty_window:
  "maxOffset \<le> startOffset \<Longrightarrow>
   findGidOffset gl gr startOffset maxOffset = Some (Done (- 1), gr, [])"
proof -
  assume le: "maxOffset \<le> startOffset"
  obtain c where c: "slowGid gl gr = Done c" using slowGid_Done by blast
  show ?thesis
    by (simp add: findGidOffset_eq [OF c] scan_past [OF le])
qed

text \<open>The call \<^verbatim>\<open>findGidOffset(10, 9)\<close> of the package's test.\<close>

theorem findGidOffset_empty_window_witness:
  "(9::int) \<le> 10 \<and>
   findGidOffset initial_globals sample_goroutine 10 9 = Some (Done (- 1), sample_goroutine, [])"
  using findGidOffset_empty_window [of 9 10 initial_globals sample_goroutine]
  by simp


section \<open>Properties of checkGidOffset\<close>

lemma collect_eq:
  "collect rs b =
     (if Panicking \<in> set rs \<or> Fatal \<in> set rs then Fatal
      else Done (b \<and> Done False \<notin> set rs))"
  by (induction rs b rule: collect.induct) auto

lemma collect_set: "set rs = set rs' \<Longrightarrow> collect rs b = collect rs' b"
  by (simp add: collect_eq)

lemma probe_not_Panicking: "probe gl gr offset \<noteq> Panicking"
  by (auto simp: probe_def Let_def split: exec.splits)

lemma probe_True_iff:
  "(probe gl gr offset = Done True) =
     (\<exists>gid. slowGid gl gr = Done gid \<and> gid \<noteq> 0 \<and> getg gr \<noteq> 0 \<and> stored gr offset = Some gid)"
  by (auto simp: probe_def Let_def gidFromG_cases stored_def split: exec.splits option.splits)

lemma probe_Fatal_iff:
  "(probe gl gr offset = Fatal) =
     (\<exists>gid. slowGid gl gr = Done gid \<and> gid \<noteq> 0 \<and> getg gr \<noteq> 0 \<and> stored gr offset = None \<and>
        \<not> panicOnFault gr \<and> \<not> getg gr + word_of_int offset < nilPage)"
  using slowGid_Done [of gl gr]
  by (auto simp: probe_def Let_def gidFromG_cases stored_def split: exec.splits option.splits)

lemma checkGidOffset_not_Panicking: "checkGidOffset gl probes offset \<noteq> Panicking"
  by (simp add: checkGidOffset_def collect_eq)

lemma collect_True_iff: "(collect rs b = Done True) = (b \<and> (\<forall>r\<in>set rs. r = Done True))"
  by (induction rs b rule: collect.induct) auto

lemma checkGidOffset_True_iff:
  "(checkGidOffset gl probes offset = Done True) =
     (\<forall>i<checkCount. probe gl (spawn (probes i)) offset = Done True)"
  by (auto simp: checkGidOffset_def collect_True_iff)

lemma collect_Fatal_iff:
  "(collect rs b = Fatal) = (\<exists>r\<in>set rs. r = Panicking \<or> r = Fatal)"
  by (induction rs b rule: collect.induct) auto

lemma checkGidOffset_Fatal_iff:
  "(checkGidOffset gl probes offset = Fatal) =
     (\<exists>i<checkCount. probe gl (spawn (probes i)) offset = Fatal)"
  by (auto simp: checkGidOffset_def collect_Fatal_iff probe_not_Panicking)

text \<open>
  A probe whose read faults sends \<open>false\<close> where the fault is raised as a panic, which
  for a new goroutine is the case in the first page only.
\<close>

lemma probe_fault:
  assumes "slowGid gl gr = Done gid" and "gid \<noteq> 0" and "getg gr \<noteq> 0"
    and "stored gr offset = None"
  shows "probe gl (spawn gr) offset =
           (if getg gr + word_of_int offset < nilPage then Done False else Fatal)"
  using assms
  by (simp add: probe_def Let_def gidFromG_cases stored_def spawn_def getg_def slowGid_def
        Stack_def)

text \<open>
  Claim C5 at a read that faults. Offset 24 lies past the sample control block. In
  \<^verbatim>\<open>findGidOffset\<close>, which sets the panic-on-fault flag, the fault is recovered and the
  result is \<open>-1\<close>. The probes of \<^verbatim>\<open>checkGidOffset\<close> are new goroutines that never set
  the flag, so the same fault is a fatal error of the runtime: the deferred
  \<^verbatim>\<open>recover\<close> does not run and the batch does not report \<open>false\<close>. (The lemmas
  above give the rest of the claim: the batch is \<open>true\<close> exactly when every probe
  matches, and a fault that is raised as a panic counts as a mismatch.)
\<close>

theorem checkGidOffset_fault_is_fatal:
  "stored sample_goroutine 24 = None \<and>
   findGidOffset initial_globals sample_goroutine 24 256 =
     Some (Done (- 1), sample_goroutine, [0x10018]) \<and>
   checkGidOffset initial_globals (\<lambda>i. sample_goroutine) 24 = Fatal"
proof -
  have "checkGidOffset initial_globals (\<lambda>i. sample_goroutine) 24 = Fatal"
    by code_simp
  moreover have "stored sample_goroutine 24 = None"
    by (simp add: stored_def sample_getg sample_memory)
  ultimately show ?thesis by (simp add: sample_find_24_256)
qed


section \<open>Properties of the voters\<close>

lemma progression_after:
  "x \<in> progression s m \<Longrightarrow> progression (x + gidSize) m \<subseteq> {y. y \<in> progression s m \<and> x < y}"
  unfolding progression_def gidSize_def by (auto; presburger)

lemma findGidOffset_result:
  assumes "- (2 ^ 63) \<le> s" and "m \<le> 2 ^ 63 - 8"
  shows "\<exists>r reads. findGidOffset gl gr s m = Some (Done r, gr, reads) \<and>
           (r = - 1 \<or>
            (r \<in> progression s m \<and>
             (\<exists>c. slowGid gl gr = Done c \<and> c \<noteq> 0 \<and> getg gr \<noteq> 0 \<and> stored gr r = Some c)))"
proof -
  obtain c where c: "slowGid gl gr = Done c" using slowGid_Done by blast
  from findGidOffset_total [OF assms c] obtain r reads where
    f: "findGidOffset gl gr s m = Some (Done r, gr, reads)"
    and p: "if c \<noteq> 0 \<and> getg gr \<noteq> 0 then
              \<exists>r'. scan (gr\<lparr>panicOnFault := True\<rparr>) (getg gr) c s m = Some (r', reads) \<and>
                    scan_post (gr\<lparr>panicOnFault := True\<rparr>) (getg gr) c s m r' reads \<and>
                    r = (case r' of Done x \<Rightarrow> x | Panicking \<Rightarrow> - 1 | Fatal \<Rightarrow> - 1)
            else r = - 1 \<and> reads = []"
    by blast
  have "r = - 1 \<or>
            (r \<in> progression s m \<and>
             (\<exists>c. slowGid gl gr = Done c \<and> c \<noteq> 0 \<and> getg gr \<noteq> 0 \<and> stored gr r = Some c))"
  proof (cases "c \<noteq> 0 \<and> getg gr \<noteq> 0")
    case False
    with p show ?thesis by auto
  next
    case True
    with p obtain r' where
      post: "scan_post (gr\<lparr>panicOnFault := True\<rparr>) (getg gr) c s m r' reads"
      and r: "r = (case r' of Done x \<Rightarrow> x | Panicking \<Rightarrow> - 1 | Fatal \<Rightarrow> - 1)"
      by auto
    show ?thesis
    proof (cases r')
      case (Done x)
      with post r True c show ?thesis
        by (auto simp: scan_post_def stored_def)
    qed (use r in auto)
  qed
  with f show ?thesis by blast
qed

lemma voter_loop_spec:
  "0 \<le> offset \<Longrightarrow>
   \<exists>res. voter_loop gl probes gr k offset acc = Some res \<and> res \<noteq> Panicking \<and>
     (\<forall>l. res = Done l \<longrightarrow> (\<exists>new. l = acc @ new \<and> voter_post gl probes gr offset new))"
proof (induction "nat (gSize - offset)" arbitrary: offset k acc rule: less_induct)
  case less
  show ?case
  proof (cases "offset < gSize")
    case False
    then show ?thesis
      by (subst voter_loop.simps) (simp add: voter_post_def)
  next
    case lt: True
    have b: "- (2 ^ 63) \<le> offset" "gSize \<le> 2 ^ 63 - 8"
      using less.prems by (simp_all add: gSize_def)
    from findGidOffset_result [OF b] obtain r reads where
      f: "findGidOffset gl gr offset gSize = Some (Done r, gr, reads)"
      and r: "r = - 1 \<or>
            (r \<in> progression offset gSize \<and>
             (\<exists>c. slowGid gl gr = Done c \<and> c \<noteq> 0 \<and> getg gr \<noteq> 0 \<and> stored gr r = Some c))"
      by blast
    show ?thesis
    proof (cases "r = - 1")
      case True
      with lt f show ?thesis
        by (subst voter_loop.simps) (simp add: voter_post_def)
    next
      case False
      with r have rin: "r \<in> progression offset gSize"
        and rc: "\<exists>c. slowGid gl gr = Done c \<and> c \<noteq> 0 \<and> getg gr \<noteq> 0 \<and> stored gr r = Some c"
        by auto
      from rin have rb: "offset \<le> r" "r < gSize" by (simp_all add: progression_def)
      have w: "wrap64 (r + gidSize) = r + gidSize"
        using rb less.prems by (intro wrap64_id) (simp_all add: gidSize_def gSize_def)
      show ?thesis
      proof (cases "checkGidOffset gl (probes k) r")
        case Panicking
        then show ?thesis by (simp add: checkGidOffset_not_Panicking)
      next
        case Fatal
        with lt f False show ?thesis
          by (subst voter_loop.simps) simp
      next
        case (Done ok)
        let ?acc' = "if ok then acc @ [r] else acc"
        have "nat (gSize - (r + gidSize)) < nat (gSize - offset)"
          using rb by (simp add: gidSize_def)
        moreover have "0 \<le> r + gidSize"
          using rb less.prems by (simp add: gidSize_def)
        ultimately obtain res where
          rec: "voter_loop gl probes gr (Suc k) (r + gidSize) ?acc' = Some res"
          and np: "res \<noteq> Panicking"
          and post: "\<forall>l. res = Done l \<longrightarrow>
             (\<exists>new. l = ?acc' @ new \<and> voter_post gl probes gr (r + gidSize) new)"
          using less.hyps by blast
        have eq: "voter_loop gl probes gr k offset acc = Some res"
          using lt f False Done rec by (subst voter_loop.simps) (simp add: w)
        have "\<exists>new. l = acc @ new \<and> voter_post gl probes gr offset new" if l: "res = Done l" for l
        proof -
          from post l obtain new where
            new: "l = ?acc' @ new" and vp: "voter_post gl probes gr (r + gidSize) new"
            by blast
          from vp progression_after [OF rin]
          have after: "\<forall>x\<in>set new. x \<in> progression offset gSize \<and> r < x"
            by (auto simp: voter_post_def)
          show ?thesis
          proof (cases ok)
            case False
            with new vp after show ?thesis
              by (auto simp: voter_post_def)
          next
            case True
            with Done have "checkGidOffset gl (probes k) r = Done True" by simp
            then have "voter_post gl probes gr offset (r # new)"
              using vp after rin rc by (auto simp: voter_post_def)
            with new True show ?thesis by auto
          qed
        qed
        with eq np show ?thesis by blast
      qed
    qed
  qed
qed


section \<open>Properties of getGidOffset\<close>

lemma gather_Done:
  "gather rs = Some (Done ls) \<Longrightarrow> rs = map (\<lambda>l. Some (Done l)) ls"
proof (induction rs arbitrary: ls rule: gather.induct)
  case (2 rs)
  then show ?case by (auto split: option.splits exec.splits)
next
  case (3 l rs)
  then show ?case by (auto split: option.splits exec.splits)
qed auto

lemma gather_total: "None \<notin> set rs \<Longrightarrow> \<exists>x. gather rs = Some x"
  by (induction rs rule: gather.induct) (auto split: option.splits exec.splits)

lemma fold_vote:
  "fold (\<lambda>offset m'. vote m' offset) l m x =
     (if x \<in> set l then Some (votes_of m x + int (count_list l x)) else m x)"
proof (induction l arbitrary: m)
  case Nil
  then show ?case by simp
next
  case (Cons a l)
  show ?case
    by (simp add: Cons.IH) (auto simp: vote_def votes_of_def count_list_0_iff)
qed

lemma sum_votes_zero: "\<forall>l\<in>set ls. x \<notin> set l \<Longrightarrow> (\<Sum>l\<leftarrow>ls. int (count_list l x)) = 0"
  by (induction ls) (auto simp: count_list_0_iff)

lemma fold_fold_vote:
  "fold (\<lambda>l m. fold (\<lambda>offset m'. vote m' offset) l m) ls m x =
     (if \<exists>l\<in>set ls. x \<in> set l
      then Some (votes_of m x + (\<Sum>l\<leftarrow>ls. int (count_list l x)))
      else m x)"
proof (induction ls arbitrary: m)
  case Nil
  then show ?case by simp
next
  case (Cons l ls)
  show ?case
    by (simp add: Cons.IH) (auto simp: fold_vote votes_of_def count_list_0_iff sum_votes_zero)
qed

lemma count_votes_eq:
  "count_votes ls x =
     (if \<exists>l\<in>set ls. x \<in> set l then Some (\<Sum>l\<leftarrow>ls. int (count_list l x)) else None)"
  by (simp add: count_votes_def fold_fold_vote votes_of_def)

lemma count_list_distinct: "distinct l \<Longrightarrow> count_list l x = (if x \<in> set l then 1 else 0)"
  by (induction l) auto

lemma sum_votes_le:
  "\<forall>l\<in>set ls. distinct l \<Longrightarrow> (\<Sum>l\<leftarrow>ls. int (count_list l x)) \<le> int (length ls)"
  by (induction ls) (auto simp: count_list_distinct)

lemma sum_votes_all:
  "\<forall>l\<in>set ls. distinct l \<Longrightarrow>
   ((\<Sum>l\<leftarrow>ls. int (count_list l x)) = int (length ls)) = (\<forall>l\<in>set ls. x \<in> set l)"
proof (induction ls)
  case Nil
  then show ?case by simp
next
  case (Cons l ls)
  then have d: "\<forall>l\<in>set ls. distinct l" and dl: "distinct l" by auto
  from sum_votes_le [OF d, of x] Cons.IH [OF d] dl show ?case
    by (auto simp: count_list_distinct)
qed

lemma count_votes_unanimous:
  assumes "\<forall>l\<in>set ls. distinct l" and "ls \<noteq> []"
  shows "(count_votes ls x = Some (int (length ls))) = (\<forall>l\<in>set ls. x \<in> set l)"
proof (cases "\<exists>l\<in>set ls. x \<in> set l")
  case True
  then show ?thesis
    using sum_votes_all [OF assms(1), of x] by (simp add: count_votes_eq)
next
  case False
  moreover from assms(2) obtain l where "l \<in> set ls" by (cases ls) auto
  ultimately show ?thesis by (auto simp: count_votes_eq)
qed

lemma pick_cases:
  "pick m order = - 1 \<or> (pick m order \<in> set order \<and> m (pick m order) = Some (int voterCount))"
  by (induction order) auto

lemma pick_found:
  "x \<in> set order \<Longrightarrow> m x = Some (int voterCount) \<Longrightarrow>
   m (pick m order) = Some (int voterCount)"
  by (induction order) auto



lemma spawn_fields [simp]:
  "getg (spawn gr) = getg gr" "stored (spawn gr) x = stored gr x"
  "slowGid gl (spawn gr) = slowGid gl gr"
  by (simp_all add: spawn_def getg_def stored_def slowGid_def Stack_def)

lemma voter_result:
  "\<exists>res. voter gl env i = Some res \<and> res \<noteq> Panicking \<and>
     (\<forall>l. res = Done l \<longrightarrow>
        voter_post gl (probe_goroutine env i) (spawn (voter_goroutine env i)) 0 l)"
  using voter_loop_spec [of 0 gl "probe_goroutine env i" "spawn (voter_goroutine env i)" 0 "[]"]
  by (auto simp: voter_def)

lemma tally_total: "\<exists>x. tally gl env = Some x"
proof -
  have "None \<notin> set (map (voter gl env) [0..<voterCount])"
    using voter_result [of gl env] by (auto simp: image_iff) (metis option.distinct(1))
  from gather_total [OF this] obtain x where
    "gather (map (voter gl env) [0..<voterCount]) = Some x" by blast
  then show ?thesis
    by (cases x) (auto simp: tally_def split: exec.splits)
qed

lemma tally_Done:
  assumes "tally gl env = Some (Done m)"
  shows "\<exists>ls. length ls = voterCount \<and> m = count_votes ls \<and>
           (\<forall>i<voterCount. voter gl env i = Some (Done (ls ! i)) \<and>
              voter_post gl (probe_goroutine env i) (spawn (voter_goroutine env i)) 0 (ls ! i))"
proof -
  from assms obtain ls where
    g: "gather (map (voter gl env) [0..<voterCount]) = Some (Done ls)" and m: "m = count_votes ls"
    by (auto simp: tally_def split: option.splits exec.splits)
  from gather_Done [OF g] have eq: "map (voter gl env) [0..<voterCount] = map (\<lambda>l. Some (Done l)) ls" .
  then have len: "length ls = voterCount"
    by (metis length_map length_upt minus_nat.diff_0)
  have v: "voter gl env i = Some (Done (ls ! i))" if "i < voterCount" for i
  proof -
    from that len have "map (voter gl env) [0..<voterCount] ! i = voter gl env i"
      and "map (\<lambda>l. Some (Done l)) ls ! i = Some (Done (ls ! i))"
      by simp_all
    with eq show ?thesis by simp
  qed
  have "voter_post gl (probe_goroutine env i) (spawn (voter_goroutine env i)) 0 (ls ! i)"
    if "i < voterCount" for i
    using voter_result [of gl env i] v [OF that] by auto
  with len m v show ?thesis by blast
qed

lemma tally_unanimous:
  assumes "tally gl env = Some (Done m)"
  shows "(m x = Some (int voterCount)) =
           (\<forall>i<voterCount. \<exists>l. voter gl env i = Some (Done l) \<and> x \<in> set l)"
proof -
  from tally_Done [OF assms] obtain ls where len: "length ls = voterCount"
    and m: "m = count_votes ls"
    and v: "\<forall>i<voterCount. voter gl env i = Some (Done (ls ! i)) \<and>
              voter_post gl (probe_goroutine env i) (spawn (voter_goroutine env i)) 0 (ls ! i)"
    by blast
  have d: "\<forall>l\<in>set ls. distinct l"
    using v len by (simp add: all_set_conv_all_nth voter_post_def)
  have ne: "ls \<noteq> []" using len by (auto simp: voterCount_def)
  have "(m x = Some (int voterCount)) = (\<forall>l\<in>set ls. x \<in> set l)"
    using count_votes_unanimous [OF d ne, of x] len m by simp
  also have "\<dots> = (\<forall>i<voterCount. x \<in> set (ls ! i))"
    using len by (simp add: all_set_conv_all_nth)
  also have "\<dots> = (\<forall>i<voterCount. \<exists>l. voter gl env i = Some (Done l) \<and> x \<in> set l)"
    using v by auto
  finally show ?thesis .
qed

lemma tally_keys:
  assumes "tally gl env = Some (Done m)" and "m x \<noteq> None"
  shows "x \<in> progression 0 gSize"
proof -
  from tally_Done [OF assms(1)] obtain ls where len: "length ls = voterCount"
    and m: "m = count_votes ls"
    and v: "\<forall>i<voterCount. voter gl env i = Some (Done (ls ! i)) \<and>
              voter_post gl (probe_goroutine env i) (spawn (voter_goroutine env i)) 0 (ls ! i)"
    by blast
  from assms(2) m obtain l where "l \<in> set ls" "x \<in> set l"
    by (auto simp: count_votes_eq split: if_splits)
  then obtain i where "i < voterCount" "x \<in> set (ls ! i)"
    using len by (auto simp: in_set_conv_nth)
  with v show ?thesis by (auto simp: voter_post_def)
qed

lemma getGidOffset_total: "\<exists>x. getGidOffset gl env order = Some x"
  using tally_total [of gl env] by (auto simp: getGidOffset_def split: exec.splits)

lemma getGidOffset_Done:
  "getGidOffset gl env order = Some (Done r) \<Longrightarrow>
   \<exists>m. tally gl env = Some (Done m) \<and> r = pick m order"
  by (auto simp: getGidOffset_def split: option.splits exec.splits)

lemma progression_0_gSize:
  "(x \<in> progression 0 gSize) = (0 \<le> x \<and> x < gSize \<and> x mod gidSize = 0)"
  by (simp add: progression_def)




lemma sample_getGidOffset: "getGidOffset initial_globals sample_env [16] = Some (Done 16)"
  by code_simp

lemma sample_package_init:
  "package_init sample_env [16] = Some (Done (initial_globals\<lparr>gidOffset := 16\<rparr>))"
  by (simp add: package_init_def sample_getGidOffset)





text \<open>
  Claim C10. Every result of \<^verbatim>\<open>getGidOffset\<close> is \<open>-1\<close> or a multiple of \<open>gidSize\<close>
  (8) that is at least 0 and below \<open>gSize\<close> (256). So when the package has been
  initialised and \<^verbatim>\<open>FastGetGoIDAvailable()\<close> holds, \<^verbatim>\<open>gidOffset\<close> is a multiple of 8
  from 0 to 248.
\<close>

theorem getGidOffset_aligned_in_window:
  "(\<exists>x. getGidOffset gl env order = Some x) \<and>
   (\<forall>r. getGidOffset gl env order = Some (Done r) \<longrightarrow>
      r = - 1 \<or> (0 \<le> r \<and> r < gSize \<and> r mod gidSize = 0)) \<and>
   (\<forall>gl'. package_init env order = Some (Done gl') \<and> FastGetGoIDAvailable gl' \<longrightarrow>
      0 \<le> gidOffset gl' \<and> gidOffset gl' < 256 \<and> gidOffset gl' mod 8 = 0)"
proof -
  have main: "r = - 1 \<or> (0 \<le> r \<and> r < gSize \<and> r mod gidSize = 0)"
    if ret: "getGidOffset gl env order = Some (Done r)" for gl r
  proof -
    from getGidOffset_Done [OF ret] obtain m where
      t: "tally gl env = Some (Done m)" and r: "r = pick m order" by blast
    from r pick_cases [of m order] have "r = - 1 \<or> m r \<noteq> None" by auto
    then show ?thesis
      using tally_keys [OF t, of r] by (auto simp: progression_0_gSize)
  qed
  have init: "0 \<le> gidOffset gl' \<and> gidOffset gl' < 256 \<and> gidOffset gl' mod 8 = 0"
    if pi: "package_init env order = Some (Done gl')" and av: "FastGetGoIDAvailable gl'" for gl'
  proof -
    from pi obtain r where ret: "getGidOffset initial_globals env order = Some (Done r)"
      and gl': "gl' = initial_globals\<lparr>gidOffset := r\<rparr>"
      by (auto simp: package_init_def split: option.splits exec.splits)
    from av gl' have "0 \<le> r" by (simp add: FastGetGoIDAvailable_def)
    with main [OF ret] gl' show ?thesis by (auto simp: gSize_def gidSize_def)
  qed
  from getGidOffset_total main init show ?thesis by blast
qed

text \<open>The offset 16 that the sample runtime resolves to.\<close>

theorem getGidOffset_aligned_in_window_witness:
  "getGidOffset initial_globals sample_env [16] = Some (Done 16) \<and>
   (16::int) < gSize \<and> (16::int) mod gidSize = 0 \<and>
   package_init sample_env [16] = Some (Done (initial_globals\<lparr>gidOffset := 16\<rparr>)) \<and>
   FastGetGoIDAvailable (initial_globals\<lparr>gidOffset := 16\<rparr>) \<and>
   gidOffset (initial_globals\<lparr>gidOffset := 16\<rparr>) = 16"
  using getGidOffset_aligned_in_window [of initial_globals sample_env "[16]"]
  by (simp add: sample_getGidOffset sample_package_init FastGetGoIDAvailable_def
        gSize_def gidSize_def)


lemma dom_count_votes: "dom (count_votes ls) = (\<Union>l\<in>set ls. set l)"
  by (auto simp: count_votes_eq dom_def)

lemma getGidOffset_of_tally:
  "tally gl env = Some (Done m) \<Longrightarrow> getGidOffset gl env order = Some (Done (pick m order))"
  by (simp add: getGidOffset_def)

lemma findGidOffset_readable:
  assumes b: "- (2 ^ 63) \<le> s" "m \<le> 2 ^ 63 - 8"
    and c: "slowGid gl gr = Done c" and nz: "c \<noteq> 0" "getg gr \<noteq> 0"
    and rd: "\<forall>x\<in>progression s m. stored gr x \<noteq> None"
  shows "\<exists>r reads. findGidOffset gl gr s m = Some (Done r, gr, reads) \<and>
           ((r \<in> progression s m \<and> stored gr r = Some c \<and>
             (\<forall>y\<in>progression s m. stored gr y = Some c \<longrightarrow> r \<le> y))
            \<or> (r = - 1 \<and> (\<forall>y\<in>progression s m. stored gr y \<noteq> Some c)))"
proof -
  from findGidOffset_total [OF b c] nz obtain r reads r' where
    f: "findGidOffset gl gr s m = Some (Done r, gr, reads)"
    and post: "scan_post (gr\<lparr>panicOnFault := True\<rparr>) (getg gr) c s m r' reads"
    and r: "r = (case r' of Done x \<Rightarrow> x | Panicking \<Rightarrow> - 1 | Fatal \<Rightarrow> - 1)"
    by auto
  from post have sub: "set reads \<subseteq> (\<lambda>x. getg gr + word_of_int x) ` progression s m"
    by (simp add: scan_post_def)
  have "\<forall>a\<in>set reads. memory gr a \<noteq> None"
  proof
    fix a assume "a \<in> set reads"
    with sub obtain x where "x \<in> progression s m" "a = getg gr + word_of_int x" by auto
    with rd show "memory gr a \<noteq> None" by (auto simp: stored_def)
  qed
  with post have "r' \<noteq> Panicking" "r' \<noteq> Fatal"
    by (auto simp: scan_post_def)
  then obtain x where x: "r' = Done x" by (cases r') auto
  with r have "r = x" by simp
  with post x f show ?thesis
    by (auto simp: scan_post_def stored_def)
qed

lemma holds_id_at_spawn [simp]: "holds_id_at gl (spawn gr) L = holds_id_at gl gr L"
  by (simp add: holds_id_at_def)

lemma check_layout:
  assumes p: "\<forall>j<checkCount. holds_id_at gl (probes j) L" and x: "x \<in> progression 0 gSize"
  shows "\<exists>ok. checkGidOffset gl probes x = Done ok \<and> (x \<in> L \<longrightarrow> ok)"
proof -
  have nf: "checkGidOffset gl probes x \<noteq> Fatal"
    using p x by (auto simp: checkGidOffset_Fatal_iff probe_Fatal_iff holds_id_at_def)
  have "checkGidOffset gl probes x = Done True" if "x \<in> L"
    using p that unfolding checkGidOffset_True_iff probe_True_iff holds_id_at_def
    by (auto simp: spawn_fields)
  with nf checkGidOffset_not_Panicking [of gl probes x] show ?thesis
    by (cases "checkGidOffset gl probes x") auto
qed

lemma progression_from:
  "0 \<le> offset \<Longrightarrow> offset mod gidSize = 0 \<Longrightarrow>
   progression offset gSize = {x \<in> progression 0 gSize. offset \<le> x}"
  unfolding progression_def gidSize_def by (auto; presburger)

lemma voter_loop_layout:
  assumes hv: "holds_id_at gl gr L" and sub: "L \<subseteq> progression 0 gSize"
    and hp: "\<forall>k. \<forall>j<checkCount. holds_id_at gl (probes k j) L"
  shows "0 \<le> offset \<Longrightarrow> offset mod gidSize = 0 \<Longrightarrow>
     \<exists>l. voter_loop gl probes gr k offset acc = Some (Done l) \<and> set acc \<subseteq> set l \<and>
         (\<forall>x\<in>L. offset \<le> x \<longrightarrow> x \<in> set l)"
proof (induction "nat (gSize - offset)" arbitrary: offset k acc rule: less_induct)
  case less
  from hv obtain c where c: "slowGid gl gr = Done c" and nz: "c \<noteq> 0" "getg gr \<noteq> 0"
    and rd0: "\<forall>x\<in>progression 0 gSize. stored gr x \<noteq> None"
    and at: "\<forall>x\<in>L. stored gr x = Some c"
    by (auto simp: holds_id_at_def)
  note pf = progression_from [OF less.prems]
  show ?case
  proof (cases "offset < gSize")
    case False
    moreover from False sub have "\<forall>x\<in>L. \<not> offset \<le> x" by (auto simp: progression_def)
    ultimately show ?thesis
      by (subst voter_loop.simps) simp
  next
    case lt: True
    have b: "- (2 ^ 63) \<le> offset" "gSize \<le> 2 ^ 63 - 8"
      using less.prems by (simp_all add: gSize_def)
    have rd: "\<forall>x\<in>progression offset gSize. stored gr x \<noteq> None"
      using rd0 by (simp add: pf)
    from findGidOffset_readable [OF b c nz rd] obtain r reads where
      f: "findGidOffset gl gr offset gSize = Some (Done r, gr, reads)"
      and r: "(r \<in> progression offset gSize \<and> stored gr r = Some c \<and>
             (\<forall>y\<in>progression offset gSize. stored gr y = Some c \<longrightarrow> r \<le> y))
            \<or> (r = - 1 \<and> (\<forall>y\<in>progression offset gSize. stored gr y \<noteq> Some c))"
      by blast
    show ?thesis
    proof (cases "r = - 1")
      case True
      with r less.prems have "\<forall>y\<in>progression offset gSize. stored gr y \<noteq> Some c"
        by (auto simp: progression_def)
      with at sub have "\<forall>x\<in>L. \<not> offset \<le> x" by (auto simp: pf)
      with True lt f show ?thesis
        by (subst voter_loop.simps) simp
    next
      case False
      with r have rin: "r \<in> progression offset gSize"
        and least: "\<forall>y\<in>progression offset gSize. stored gr y = Some c \<longrightarrow> r \<le> y"
        by auto
      from rin have rb: "offset \<le> r" "r < gSize" "(r - offset) mod gidSize = 0"
        by (simp_all add: progression_def)
      from rin have r0: "r \<in> progression 0 gSize" by (simp add: pf)
      have w: "wrap64 (r + gidSize) = r + gidSize"
        using rb less.prems by (intro wrap64_id) (simp_all add: gidSize_def gSize_def)
      from hp have "\<forall>j<checkCount. holds_id_at gl (probes k j) L" by simp
      from check_layout [OF this r0] obtain ok where
        ck: "checkGidOffset gl (probes k) r = Done ok" and okL: "r \<in> L \<longrightarrow> ok"
        by blast
      let ?acc' = "if ok then acc @ [r] else acc"
      have m1: "nat (gSize - (r + gidSize)) < nat (gSize - offset)"
        using rb by (simp add: gidSize_def)
      have m2: "0 \<le> r + gidSize"
        using rb less.prems by (simp add: gidSize_def)
      have m3: "(r + gidSize) mod gidSize = 0"
        using rb less.prems unfolding gidSize_def by presburger
      from less.hyps [OF m1 m2 m3, of "Suc k" ?acc'] obtain l where
        rec: "voter_loop gl probes gr (Suc k) (r + gidSize) ?acc' = Some (Done l)"
        and accl: "set ?acc' \<subseteq> set l"
        and rest: "\<forall>x\<in>L. r + gidSize \<le> x \<longrightarrow> x \<in> set l"
        by blast
      have eq: "voter_loop gl probes gr k offset acc = Some (Done l)"
        using lt f False ck rec by (subst voter_loop.simps) (simp add: w)
      have "x \<in> set l" if xL: "x \<in> L" and ox: "offset \<le> x" for x
      proof (cases "x = r")
        case True
        with xL okL accl show ?thesis by auto
      next
        case False
        from xL sub ox have xin: "x \<in> progression offset gSize" by (auto simp: pf)
        with least at xL have "r \<le> x" by auto
        with False xin rb less.prems have "r + gidSize \<le> x"
          unfolding progression_def gidSize_def by (auto; presburger)
        with rest xL show ?thesis by auto
      qed
      moreover from accl have "set acc \<subseteq> set l" by (auto split: if_splits)
      ultimately show ?thesis using eq by blast
    qed
  qed
qed

lemma voter_layout:
  assumes "layout_at gl env L" and "i < voterCount"
  shows "\<exists>l. voter gl env i = Some (Done l) \<and> L \<subseteq> set l"
proof -
  from assms have hv: "holds_id_at gl (spawn (voter_goroutine env i)) L"
    and sub: "L \<subseteq> progression 0 gSize"
    and hp: "\<forall>k. \<forall>j<checkCount. holds_id_at gl (probe_goroutine env i k j) L"
    by (auto simp: layout_at_def)
  from voter_loop_layout [OF hv sub hp, of 0 0 "[]"] sub show ?thesis
    by (auto simp: voter_def gidSize_def progression_def)
qed

lemma gather_all_Done:
  "\<forall>r\<in>set rs. \<exists>l. r = Some (Done l) \<Longrightarrow> \<exists>ls. gather rs = Some (Done ls)"
  by (induction rs rule: gather.induct) (auto split: option.splits exec.splits)

lemma tally_layout:
  assumes "layout_at gl env L"
  shows "\<exists>m. tally gl env = Some (Done m) \<and> (\<forall>x\<in>L. m x = Some (int voterCount))"
proof -
  have "\<forall>r\<in>set (map (voter gl env) [0..<voterCount]). \<exists>l. r = Some (Done l)"
  proof
    fix r assume "r \<in> set (map (voter gl env) [0..<voterCount])"
    then obtain i where "i < voterCount" "r = voter gl env i" by auto
    with voter_layout [OF assms, of i] show "\<exists>l. r = Some (Done l)" by auto
  qed
  from gather_all_Done [OF this] obtain ls where
    "gather (map (voter gl env) [0..<voterCount]) = Some (Done ls)" by blast
  then have t: "tally gl env = Some (Done (count_votes ls))"
    by (simp add: tally_def)
  have "count_votes ls x = Some (int voterCount)" if "x \<in> L" for x
    unfolding tally_unanimous [OF t] using voter_layout [OF assms] that by blast
  with t show ?thesis by blast
qed


lemma run_pick:
  assumes t: "tally gl env = Some (Done m)" and o: "range_order m order"
    and x: "m x = Some (int voterCount)"
  shows "m (pick m order) = Some (int voterCount) \<and> 0 \<le> pick m order"
proof -
  from x o have "x \<in> set order" by (auto simp: range_order_def)
  from pick_found [where m = m, OF this x] have p: "m (pick m order) = Some (int voterCount)" .
  then have "pick m order \<in> progression 0 gSize"
    using tally_keys [OF t, of "pick m order"] by simp
  with p show ?thesis by (simp add: progression_def)
qed

text \<open>
  Claim C8, as the code has it. Take two runs of \<^verbatim>\<open>getGidOffset\<close> with the same
  \<^verbatim>\<open>goroutinePrefix\<close>, each in a runtime with the layout \<open>L\<close> (the goroutines of the two
  runs are not the same, and neither are the votes counted). In both runs every offset
  of \<open>L\<close> gets the votes of all voters, so when \<open>L\<close> is not empty both runs return an
  offset that is not negative and has all the votes. The two runs return the same offset
  when \<open>L\<close> is one offset and in neither run another offset has all the votes. The
  orders in which \<^verbatim>\<open>range\<close> visits the keys of the two maps are arbitrary.
\<close>

theorem getGidOffset_two_runs:
  assumes l1: "layout_at gl env1 L" and l2: "layout_at gl env2 L"
    and t1: "tally gl env1 = Some (Done m1)" and t2: "tally gl env2 = Some (Done m2)"
    and o1: "range_order m1 order1" and o2: "range_order m2 order2"
  shows "\<exists>r1 r2. getGidOffset gl env1 order1 = Some (Done r1) \<and>
           getGidOffset gl env2 order2 = Some (Done r2) \<and>
           (\<forall>x\<in>L. m1 x = Some (int voterCount) \<and> m2 x = Some (int voterCount)) \<and>
           (L \<noteq> {} \<longrightarrow>
              0 \<le> r1 \<and> 0 \<le> r2 \<and>
              m1 r1 = Some (int voterCount) \<and> m2 r2 = Some (int voterCount)) \<and>
           (\<forall>x. L = {x} \<and> (\<forall>y. m1 y = Some (int voterCount) \<longrightarrow> y = x) \<and>
                (\<forall>y. m2 y = Some (int voterCount) \<longrightarrow> y = x)
              \<longrightarrow> r1 = x \<and> r2 = x)"
proof -
  from tally_layout [OF l1] t1 have u1: "\<forall>x\<in>L. m1 x = Some (int voterCount)" by auto
  from tally_layout [OF l2] t2 have u2: "\<forall>x\<in>L. m2 x = Some (int voterCount)" by auto
  have g1: "getGidOffset gl env1 order1 = Some (Done (pick m1 order1))"
    by (rule getGidOffset_of_tally [OF t1])
  have g2: "getGidOffset gl env2 order2 = Some (Done (pick m2 order2))"
    by (rule getGidOffset_of_tally [OF t2])
  have ne: "0 \<le> pick m1 order1 \<and> 0 \<le> pick m2 order2 \<and>
      m1 (pick m1 order1) = Some (int voterCount) \<and>
      m2 (pick m2 order2) = Some (int voterCount)" if "L \<noteq> {}"
  proof -
    from that obtain x where "x \<in> L" by auto
    with u1 u2 run_pick [OF t1 o1, of x] run_pick [OF t2 o2, of x] show ?thesis by simp
  qed
  have one: "pick m1 order1 = x \<and> pick m2 order2 = x"
    if "L = {x}" "\<forall>y. m1 y = Some (int voterCount) \<longrightarrow> y = x"
      "\<forall>y. m2 y = Some (int voterCount) \<longrightarrow> y = x" for x
  proof -
    from that(1) have "L \<noteq> {}" by simp
    from ne [OF this] that(2,3) show ?thesis by blast
  qed
  show ?thesis
  proof (intro exI conjI)
    show "getGidOffset gl env1 order1 = Some (Done (pick m1 order1))" by (rule g1)
    show "getGidOffset gl env2 order2 = Some (Done (pick m2 order2))" by (rule g2)
    show "\<forall>x\<in>L. m1 x = Some (int voterCount) \<and> m2 x = Some (int voterCount)"
      using u1 u2 by simp
    show "L \<noteq> {} \<longrightarrow>
              0 \<le> pick m1 order1 \<and> 0 \<le> pick m2 order2 \<and>
              m1 (pick m1 order1) = Some (int voterCount) \<and>
              m2 (pick m2 order2) = Some (int voterCount)"
      using ne by simp
    show "\<forall>x. L = {x} \<and> (\<forall>y. m1 y = Some (int voterCount) \<longrightarrow> y = x) \<and>
                (\<forall>y. m2 y = Some (int voterCount) \<longrightarrow> y = x)
              \<longrightarrow> pick m1 order1 = x \<and> pick m2 order2 = x"
      using one by simp
  qed
qed

lemma progression_window: "progression 0 gSize = set (map (\<lambda>k. 8 * int k) [0..<32])"
proof (rule set_eqI)
  fix x :: int
  show "(x \<in> progression 0 gSize) = (x \<in> set (map (\<lambda>k. 8 * int k) [0..<32]))"
  proof
    assume "x \<in> progression 0 gSize"
    then have x: "0 \<le> x" "x < 256" "x mod 8 = 0"
      by (simp_all add: progression_def gSize_def gidSize_def)
    define k where "k = nat (x div 8)"
    from x have "x = 8 * (x div 8)" by presburger
    with x have "x = 8 * int k" "k < 32" unfolding k_def by simp_all
    then show "x \<in> set (map (\<lambda>k. 8 * int k) [0..<32])" by simp
  next
    assume "x \<in> set (map (\<lambda>k. 8 * int k) [0..<32])"
    then obtain k where "k < 32" "x = 8 * int k" by auto
    then show "x \<in> progression 0 gSize"
      by (simp add: progression_def gSize_def gidSize_def)
  qed
qed

lemma holds_id_atI:
  assumes "slowGid gl gr = Done c" "c \<noteq> 0" "getg gr \<noteq> 0"
    and "list_all (\<lambda>x. stored gr x \<noteq> None) (map (\<lambda>k. 8 * int k) [0..<32])"
    and "list_all (\<lambda>x. stored gr x = Some c) xs"
  shows "holds_id_at gl gr (set xs)"
  using assms unfolding holds_id_at_def progression_window by (auto simp: list_all_iff)

lemma block_7_twin:
  "holds_id_at initial_globals (block_goroutine ''goroutine 7 [running]:'' 0x10000 7 [0, 8]) {0, 8}"
proof -
  let ?g = "block_goroutine ''goroutine 7 [running]:'' 0x10000 7 [0, 8]"
  have "slowGid initial_globals ?g = Done 7" "getg ?g \<noteq> 0"
    "list_all (\<lambda>x. stored ?g x \<noteq> None) (map (\<lambda>k. 8 * int k) [0..<32])"
    "list_all (\<lambda>x. stored ?g x = Some 7) [0, 8]"
    by code_simp+
  from holds_id_atI [OF this(1) _ this(2-4)] show ?thesis by simp
qed


lemma block_9_twin:
  "holds_id_at initial_globals (block_goroutine ''goroutine 9 [running]:'' 0x20000 9 [0, 8]) {0, 8}"
proof -
  let ?g = "block_goroutine ''goroutine 9 [running]:'' 0x20000 9 [0, 8]"
  have "slowGid initial_globals ?g = Done 9" "getg ?g \<noteq> 0"
    "list_all (\<lambda>x. stored ?g x \<noteq> None) (map (\<lambda>k. 8 * int k) [0..<32])"
    "list_all (\<lambda>x. stored ?g x = Some 9) [0, 8]"
    by code_simp+
  from holds_id_atI [OF this(1) _ this(2-4)] show ?thesis by simp
qed

lemma block_7_single:
  "holds_id_at initial_globals (block_goroutine ''goroutine 7 [running]:'' 0x10000 7 [16]) {16}"
proof -
  let ?g = "block_goroutine ''goroutine 7 [running]:'' 0x10000 7 [16]"
  have "slowGid initial_globals ?g = Done 7" "getg ?g \<noteq> 0"
    "list_all (\<lambda>x. stored ?g x \<noteq> None) (map (\<lambda>k. 8 * int k) [0..<32])"
    "list_all (\<lambda>x. stored ?g x = Some 7) [16]"
    by code_simp+
  from holds_id_atI [OF this(1) _ this(2-4)] show ?thesis by simp
qed

lemma block_9_single:
  "holds_id_at initial_globals (block_goroutine ''goroutine 9 [running]:'' 0x20000 9 [16]) {16}"
proof -
  let ?g = "block_goroutine ''goroutine 9 [running]:'' 0x20000 9 [16]"
  have "slowGid initial_globals ?g = Done 9" "getg ?g \<noteq> 0"
    "list_all (\<lambda>x. stored ?g x \<noteq> None) (map (\<lambda>k. 8 * int k) [0..<32])"
    "list_all (\<lambda>x. stored ?g x = Some 9) [16]"
    by code_simp+
  from holds_id_atI [OF this(1) _ this(2-4)] show ?thesis by simp
qed

lemma block_9_extra:
  "holds_id_at initial_globals (block_goroutine ''goroutine 9 [running]:'' 0x20000 9 [8, 16]) {16}"
proof -
  let ?g = "block_goroutine ''goroutine 9 [running]:'' 0x20000 9 [8, 16]"
  have "slowGid initial_globals ?g = Done 9" "getg ?g \<noteq> 0"
    "list_all (\<lambda>x. stored ?g x \<noteq> None) (map (\<lambda>k. 8 * int k) [0..<32])"
    "list_all (\<lambda>x. stored ?g x = Some 9) [16]"
    by code_simp+
  from holds_id_atI [OF this(1) _ this(2-4)] show ?thesis by simp
qed

lemma run_layouts:
  "layout_at initial_globals run_a {0, 8}"
  "layout_at initial_globals run_b {0, 8}"
  "layout_at initial_globals run_c {16}"
  "layout_at initial_globals run_d {16}"
  by (simp_all add: layout_at_def run_a_def run_b_def run_c_def run_d_def progression_def
        gSize_def gidSize_def block_7_twin block_9_twin block_7_single block_9_single
        block_9_extra)

lemma gather_replicate:
  "gather (replicate n (Some (Done l))) = Some (Done (replicate n l))"
  by (induction n) auto

lemma run_a_voter: "voter initial_globals run_a = (\<lambda>i. Some (Done [0, 8]))"
proof (rule ext)
  fix i
  have "voter initial_globals run_a 0 = Some (Done [0, 8])" by code_simp
  then show "voter initial_globals run_a i = Some (Done [0, 8])"
    by (simp add: voter_def run_a_def)
qed

lemma run_b_voter: "voter initial_globals run_b = (\<lambda>i. Some (Done [0, 8]))"
proof (rule ext)
  fix i
  have "voter initial_globals run_b 0 = Some (Done [0, 8])" by code_simp
  then show "voter initial_globals run_b i = Some (Done [0, 8])"
    by (simp add: voter_def run_b_def)
qed

lemma run_c_voter: "voter initial_globals run_c = (\<lambda>i. Some (Done [16]))"
proof (rule ext)
  fix i
  have "voter initial_globals run_c 0 = Some (Done [16])" by code_simp
  then show "voter initial_globals run_c i = Some (Done [16])"
    by (simp add: voter_def run_c_def)
qed

lemma run_d_voter:
  "voter initial_globals run_d = (\<lambda>i. if i = 0 then Some (Done [8, 16]) else Some (Done [16]))"
proof (rule ext)
  fix i
  have v0: "voter initial_globals run_d 0 = Some (Done [8, 16])" by code_simp
  have v1: "voter initial_globals run_d 1 = Some (Done [16])" by code_simp
  have "voter initial_globals run_d i = voter initial_globals run_d 1" if "i \<noteq> 0"
    using that by (simp add: voter_def run_d_def)
  with v0 v1
  show "voter initial_globals run_d i = (if i = 0 then Some (Done [8, 16]) else Some (Done [16]))"
    by simp
qed

lemma run_tallies:
  "tally initial_globals run_a = Some (Done (count_votes (replicate voterCount [0, 8])))"
  "tally initial_globals run_b = Some (Done (count_votes (replicate voterCount [0, 8])))"
  "tally initial_globals run_c = Some (Done (count_votes (replicate voterCount [16])))"
  "tally initial_globals run_d = Some (Done (count_votes ([8, 16] # replicate 9 [16])))"
proof -
  have "gather (map (\<lambda>i. if i = 0 then Some (Done [8, 16]) else Some (Done [16]))
          [0..<voterCount]) = Some (Done ([8, 16] # replicate 9 [16]))"
    by code_simp
  then show "tally initial_globals run_d = Some (Done (count_votes ([8, 16] # replicate 9 [16])))"
    by (simp add: tally_def run_d_voter)
qed (simp_all add: tally_def run_a_voter run_b_voter run_c_voter map_replicate_const
       gather_replicate)

lemma run_results:
  "getGidOffset initial_globals run_a [0, 8] = Some (Done 0)"
  "getGidOffset initial_globals run_b [8, 0] = Some (Done 8)"
  "getGidOffset initial_globals run_c [16] = Some (Done 16)"
  "getGidOffset initial_globals run_d [8, 16] = Some (Done 16)"
  by (simp_all add: getGidOffset_of_tally [OF run_tallies(1)]
        getGidOffset_of_tally [OF run_tallies(2)] getGidOffset_of_tally [OF run_tallies(3)]
        getGidOffset_of_tally [OF run_tallies(4)] count_votes_eq sum_list_replicate
        voterCount_def)

lemma run_orders:
  "range_order (count_votes (replicate voterCount [0, 8])) [0, 8]"
  "range_order (count_votes (replicate voterCount [0, 8])) [8, 0]"
  "range_order (count_votes (replicate voterCount [16])) [16]"
  "range_order (count_votes ([8, 16] # replicate 9 [16])) [8, 16]"
  by (auto simp: range_order_def dom_count_votes voterCount_def)

lemma run_votes:
  "count_votes (replicate voterCount [16]) 8 = None"
  "count_votes ([8, 16] # replicate 9 [16]) 8 = Some 1"
  by (simp_all add: count_votes_eq voterCount_def sum_list_replicate)

text \<open>
  The runs \<open>run_c\<close> and \<open>run_d\<close> have the layout \<open>{16}\<close>. Their votes differ (offset
  8 has no vote in the first and one vote in the second), and both return 16.
\<close>

theorem getGidOffset_two_runs_witness:
  "layout_at initial_globals run_c {16} \<and>
   layout_at initial_globals run_d {16} \<and>
   tally initial_globals run_c = Some (Done (count_votes (replicate voterCount [16]))) \<and>
   tally initial_globals run_d = Some (Done (count_votes ([8, 16] # replicate 9 [16]))) \<and>
   range_order (count_votes (replicate voterCount [16])) [16] \<and>
   range_order (count_votes ([8, 16] # replicate 9 [16])) [8, 16] \<and>
   count_votes (replicate voterCount [16]) 8 = None \<and>
   count_votes ([8, 16] # replicate 9 [16]) 8 = Some 1 \<and>
   getGidOffset initial_globals run_c [16] = Some (Done 16) \<and>
   getGidOffset initial_globals run_d [8, 16] = Some (Done 16)"
  using getGidOffset_two_runs [OF run_layouts(3) run_layouts(4) run_tallies(3) run_tallies(4)
      run_orders(3) run_orders(4)]
  by (simp only: run_layouts run_tallies run_results run_orders run_votes simp_thms)

text \<open>
  Claim C8 as stated fails. The runs \<open>run_a\<close> and \<open>run_b\<close> have the same layout, the id
  at the offsets 0 and 8, and the same extractor. In both, the offsets 0 and 8 have the
  votes of all ten voters, and \<^verbatim>\<open>getGidOffset\<close> returns whichever of them \<^verbatim>\<open>range\<close>
  visits first: 0 in the first run with the order 0, 8 and 8 in the second run with
  the order 8, 0.
\<close>

theorem getGidOffset_two_runs_counterexample:
  "layout_at initial_globals run_a {0, 8} \<and>
   layout_at initial_globals run_b {0, 8} \<and>
   tally initial_globals run_a = Some (Done (count_votes (replicate voterCount [0, 8]))) \<and>
   tally initial_globals run_b = Some (Done (count_votes (replicate voterCount [0, 8]))) \<and>
   range_order (count_votes (replicate voterCount [0, 8])) [0, 8] \<and>
   range_order (count_votes (replicate voterCount [0, 8])) [8, 0] \<and>
   getGidOffset initial_globals run_a [0, 8] = Some (Done 0) \<and>
   getGidOffset initial_globals run_b [8, 0] = Some (Done 8)"
  by (simp only: run_layouts run_tallies run_results run_orders simp_thms)


section \<open>Properties of the public functions\<close>




section \<open>The package variables after initialisation\<close>

lemma slowGid_st_eq: "slowGid_st s gr = (slowGid (vars s) gr, s)"
  by (simp add: slowGid_st_def load_goroutinePrefix_def slowGid_def)

lemma FastGetGoIDAvailable_st_eq:
  "FastGetGoIDAvailable_st s = (FastGetGoIDAvailable (vars s), s)"
  by (simp add: FastGetGoIDAvailable_st_def load_gidOffset_def FastGetGoIDAvailable_def)

lemma fastGid_st_eq: "fastGid_st s gr = (fastGid (vars s) gr, s)"
  by (simp add: fastGid_st_def load_gidOffset_def fastGid_def)

lemma GetGoID_st_eq: "GetGoID_st s gr = (GetGoID (vars s) gr, s)"
  by (simp add: GetGoID_st_def FastGetGoIDAvailable_st_eq fastGid_st_eq slowGid_st_eq
        GetGoID_def)

lemma findGidOffset_st_eq:
  "findGidOffset_st s gr startOffset maxOffset =
     (case findGidOffset (vars s) gr startOffset maxOffset of
        None \<Rightarrow> None
      | Some (r, gr', reads) \<Rightarrow> Some (r, s, gr', reads))"
  by (auto simp: findGidOffset_st_def findGidOffset_def slowGid_st_eq Let_def
        split: exec.splits option.splits)

lemma probe_st_eq: "probe_st s gr offset = (probe (vars s) gr offset, s)"
  by (auto simp: probe_st_def probe_def slowGid_st_eq Let_def split: exec.splits)

lemma probes_st_eq:
  "probes_st s probes offset js =
     (map (\<lambda>i. probe (vars s) (spawn (probes i)) offset) js, s)"
  by (induction js) (simp_all add: probe_st_eq)

lemma checkGidOffset_st_eq:
  "checkGidOffset_st s probes offset = (checkGidOffset (vars s) probes offset, s)"
  by (simp add: checkGidOffset_st_def probes_st_eq checkGidOffset_def)

lemma voter_loop_st_eq:
  "0 \<le> offset \<Longrightarrow>
   voter_loop_st s probes gr k offset acc =
     (case voter_loop (vars s) probes gr k offset acc of
        None \<Rightarrow> None
      | Some r \<Rightarrow> Some (r, s))"
proof (induction "nat (gSize - offset)" arbitrary: offset k acc rule: less_induct)
  case less
  show ?case
  proof (cases "offset < gSize")
    case False
    then show ?thesis
      by (subst voter_loop_st.simps, subst voter_loop.simps) simp
  next
    case lt: True
    have b: "- (2 ^ 63) \<le> offset" "gSize \<le> 2 ^ 63 - 8"
      using less.prems by (simp_all add: gSize_def)
    from findGidOffset_result [OF b] obtain r reads where
      f: "findGidOffset (vars s) gr offset gSize = Some (Done r, gr, reads)"
      and r: "r = - 1 \<or> r \<in> progression offset gSize"
      by blast
    show ?thesis
    proof (cases "r = - 1")
      case True
      with lt f show ?thesis
        by (subst voter_loop_st.simps, subst voter_loop.simps) (simp add: findGidOffset_st_eq)
    next
      case False
      with r have rb: "offset \<le> r" "r < gSize" by (simp_all add: progression_def)
      have w: "wrap64 (r + gidSize) = r + gidSize"
        using rb less.prems by (intro wrap64_id) (simp_all add: gidSize_def gSize_def)
      have m1: "nat (gSize - (r + gidSize)) < nat (gSize - offset)"
        using rb by (simp add: gidSize_def)
      have m2: "0 \<le> r + gidSize"
        using rb less.prems by (simp add: gidSize_def)
      note ih = less.hyps [OF m1 m2]
      show ?thesis
        using lt f False
        by (subst voter_loop_st.simps, subst voter_loop.simps)
           (simp add: findGidOffset_st_eq checkGidOffset_st_eq w ih split: exec.splits)
    qed
  qed
qed

lemma voter_st_eq:
  "voter_st s env i = (case voter (vars s) env i of None \<Rightarrow> None | Some r \<Rightarrow> Some (r, s))"
  by (simp add: voter_st_def voter_def voter_loop_st_eq)

lemma voters_st_eq:
  "voters_st s env js = Some (map (voter (vars s) env) js, s)"
proof (induction js)
  case Nil
  then show ?case by simp
next
  case (Cons i js)
  obtain res where "voter (vars s) env i = Some res"
    using voter_result [of "vars s" env i] by blast
  with Cons show ?case by (simp add: voter_st_eq)
qed

lemma getGidOffset_st_eq:
  "getGidOffset_st s env order =
     (case getGidOffset (vars s) env order of None \<Rightarrow> None | Some r \<Rightarrow> Some (r, s))"
  by (simp add: getGidOffset_st_def voters_st_eq getGidOffset_def tally_def
        split: option.splits exec.splits)

lemma package_init_st_eq:
  "package_init_st env order =
     (case package_init env order of
        None \<Rightarrow> None
      | Some (Done gl) \<Rightarrow> Some (Done \<lparr>vars = gl, gidOffset_assignments = 1\<rparr>)
      | Some Panicking \<Rightarrow> Some Fatal
      | Some Fatal \<Rightarrow> Some Fatal)"
proof -
  have "vars (store_goroutinePrefix ''goroutine '' zero_process) = initial_globals"
    by (simp add: store_goroutinePrefix_def zero_process_def initial_globals_def)
  then show ?thesis
    by (simp add: package_init_st_def package_init_def getGidOffset_st_eq Let_def
          store_gidOffset_def store_goroutinePrefix_def zero_process_def
          split: option.splits exec.splits)
qed

lemma perform_frame: "perform c (s, gr) = Some (s', gr') \<Longrightarrow> s' = s"
  by (cases c)
     (auto simp: GetGoID_st_eq FastGetGoIDAvailable_st_eq fastGid_st_eq slowGid_st_eq
        findGidOffset_st_eq checkGidOffset_st_eq getGidOffset_st_eq alive_def
        split: exec.splits option.splits)

lemma run_frame: "run cs (s, gr) = Some (s', gr') \<Longrightarrow> s' = s"
proof (induction cs arbitrary: s gr)
  case Nil
  then show ?case by simp
next
  case (Cons c cs)
  then obtain s1 gr1 where p: "perform c (s, gr) = Some (s1, gr1)"
    and r: "run cs (s1, gr1) = Some (s', gr')"
    by (auto split: option.splits)
  from perform_frame [OF p] Cons.IH [OF r] show ?case by simp
qed


lemma gidOffset_upd_irrelevant [simp]:
  "slowGid (gl\<lparr>gidOffset := x\<rparr>) gr = slowGid gl gr"
  "findGidOffset (gl\<lparr>gidOffset := x\<rparr>) gr a b = findGidOffset gl gr a b"
  "checkGidOffset (gl\<lparr>gidOffset := x\<rparr>) probes offset = checkGidOffset gl probes offset"
  by (simp_all add: slowGid_def findGidOffset_def checkGidOffset_def probe_def)

text \<open>
  Claim C7. Package initialisation stores to \<^verbatim>\<open>gidOffset\<close> once: the count of
  assignments is 1 afterwards, and the value stored is the result of \<^verbatim>\<open>getGidOffset()\<close>,
  which is \<open>-1\<close> or not negative. Whatever calls into the package a goroutine makes in
  any state, every call that leaves the process alive, whether it returns or panics,
  gives back the state it was given: the variables are what they were, no assignment
  has been added, and \<^verbatim>\<open>gidOffset\<close> and the answer of \<^verbatim>\<open>FastGetGoIDAvailable()\<close> are
  frozen.
\<close>

theorem gidOffset_frozen:
  "(\<forall>s0. package_init_st env order = Some (Done s0) \<longrightarrow>
      gidOffset_assignments s0 = 1 \<and>
      getGidOffset initial_globals env order = Some (Done (gidOffset (vars s0))) \<and>
      (gidOffset (vars s0) = - 1 \<or> 0 \<le> gidOffset (vars s0))) \<and>
   (\<forall>s' gr'. run calls (s, gr) = Some (s', gr') \<longrightarrow>
      s' = s \<and> gidOffset_assignments s' = gidOffset_assignments s \<and>
      gidOffset (vars s') = gidOffset (vars s) \<and>
      FastGetGoIDAvailable (vars s') = FastGetGoIDAvailable (vars s))"
proof -
  have init: "gidOffset_assignments s0 = 1 \<and>
      getGidOffset initial_globals env order = Some (Done (gidOffset (vars s0))) \<and>
      (gidOffset (vars s0) = - 1 \<or> 0 \<le> gidOffset (vars s0))"
    if pi: "package_init_st env order = Some (Done s0)" for s0
  proof -
    from pi obtain gl where p: "package_init env order = Some (Done gl)"
      and s0: "s0 = \<lparr>vars = gl, gidOffset_assignments = 1\<rparr>"
      by (auto simp: package_init_st_eq split: option.splits exec.splits)
    from p obtain r where ret: "getGidOffset initial_globals env order = Some (Done r)"
      and gl: "gl = initial_globals\<lparr>gidOffset := r\<rparr>"
      by (auto simp: package_init_def split: option.splits exec.splits)
    from getGidOffset_Done [OF ret] obtain m where
      t: "tally initial_globals env = Some (Done m)" and r: "r = pick m order" by blast
    from r pick_cases [of m order] have "r = - 1 \<or> m r \<noteq> None" by auto
    then have "r = - 1 \<or> 0 \<le> r"
      using tally_keys [OF t, of r] by (auto simp: progression_def)
    with ret gl s0 show ?thesis by simp
  qed
  have frame: "s' = s \<and> gidOffset_assignments s' = gidOffset_assignments s \<and>
      gidOffset (vars s') = gidOffset (vars s) \<and>
      FastGetGoIDAvailable (vars s') = FastGetGoIDAvailable (vars s)"
    if "run calls (s, gr) = Some (s', gr')" for s' gr'
    using run_frame [OF that] by simp
  from init frame show ?thesis by blast
qed

lemma sample_package_init_st:
  "package_init_st sample_env [16] =
     Some (Done \<lparr>vars = initial_globals\<lparr>gidOffset := 16\<rparr>, gidOffset_assignments = 1\<rparr>)"
  by (simp add: package_init_st_eq sample_package_init)

lemma sample_check_16:
  "checkGidOffset initial_globals (\<lambda>i. sample_goroutine) 16 = Done True"
  by code_simp

lemma sample_run:
  "run [CallGetGoID, CallFindGidOffset 0 24, CallCheckGidOffset (\<lambda>i. sample_goroutine) 16,
        CallSlowGid, CallFastGetGoIDAvailable]
       (\<lparr>vars = initial_globals\<lparr>gidOffset := 16\<rparr>, gidOffset_assignments = 1\<rparr>,
        sample_goroutine) =
     Some (\<lparr>vars = initial_globals\<lparr>gidOffset := 16\<rparr>, gidOffset_assignments = 1\<rparr>,
           sample_goroutine)"
  by (simp add: GetGoID_st_eq FastGetGoIDAvailable_st_eq slowGid_st_eq findGidOffset_st_eq
        checkGidOffset_st_eq alive_def sample_find_0_24 sample_slowGid sample_check_16
        GetGoID_def FastGetGoIDAvailable_def fastGid_def gidFromG_cases sample_getg
        sample_memory)

lemma nil_run:
  "GetGoID_st \<lparr>vars = initial_globals\<lparr>gidOffset := 16\<rparr>, gidOffset_assignments = 1\<rparr>
       (sample_goroutine\<lparr>g_ptr := 0\<rparr>) =
     (Panicking, \<lparr>vars = initial_globals\<lparr>gidOffset := 16\<rparr>, gidOffset_assignments = 1\<rparr>)"
  "run [CallGetGoID, CallFastGid]
       (\<lparr>vars = initial_globals\<lparr>gidOffset := 16\<rparr>, gidOffset_assignments = 1\<rparr>,
        sample_goroutine\<lparr>g_ptr := 0\<rparr>) =
     Some (\<lparr>vars = initial_globals\<lparr>gidOffset := 16\<rparr>, gidOffset_assignments = 1\<rparr>,
           sample_goroutine\<lparr>g_ptr := 0\<rparr>)"
  by (simp_all add: GetGoID_st_eq fastGid_st_eq alive_def GetGoID_def FastGetGoIDAvailable_def
        fastGid_def gidFromG_cases getg_def nilPage_def sample_goroutine_def)

text \<open>
  The sample runtime resolves \<^verbatim>\<open>gidOffset\<close> to 16 with one assignment. Five calls by the
  sample goroutine, and two calls that panic because \<^verbatim>\<open>getg()\<close> is nil, leave the state
  as it is.
\<close>

theorem gidOffset_frozen_witness:
  "package_init_st sample_env [16] =
     Some (Done \<lparr>vars = initial_globals\<lparr>gidOffset := 16\<rparr>, gidOffset_assignments = 1\<rparr>) \<and>
   run [CallGetGoID, CallFindGidOffset 0 24, CallCheckGidOffset (\<lambda>i. sample_goroutine) 16,
        CallSlowGid, CallFastGetGoIDAvailable]
       (\<lparr>vars = initial_globals\<lparr>gidOffset := 16\<rparr>, gidOffset_assignments = 1\<rparr>,
        sample_goroutine) =
     Some (\<lparr>vars = initial_globals\<lparr>gidOffset := 16\<rparr>, gidOffset_assignments = 1\<rparr>,
           sample_goroutine) \<and>
   GetGoID_st \<lparr>vars = initial_globals\<lparr>gidOffset := 16\<rparr>, gidOffset_assignments = 1\<rparr>
       (sample_goroutine\<lparr>g_ptr := 0\<rparr>) =
     (Panicking, \<lparr>vars = initial_globals\<lparr>gidOffset := 16\<rparr>, gidOffset_assignments = 1\<rparr>) \<and>
   run [CallGetGoID, CallFastGid]
       (\<lparr>vars = initial_globals\<lparr>gidOffset := 16\<rparr>, gidOffset_assignments = 1\<rparr>,
        sample_goroutine\<lparr>g_ptr := 0\<rparr>) =
     Some (\<lparr>vars = initial_globals\<lparr>gidOffset := 16\<rparr>, gidOffset_assignments = 1\<rparr>,
           sample_goroutine\<lparr>g_ptr := 0\<rparr>)"
  using gidOffset_frozen [of sample_env "[16]"
      "[CallGetGoID, CallFindGidOffset 0 24, CallCheckGidOffset (\<lambda>i. sample_goroutine) 16,
        CallSlowGid, CallFastGetGoIDAvailable]"
      "\<lparr>vars = initial_globals\<lparr>gidOffset := 16\<rparr>, gidOffset_assignments = 1\<rparr>"
      sample_goroutine]
  by (simp only: sample_package_init_st sample_run nil_run simp_thms)


end
